theory Spec2Isabelle
  imports Complex_Main "HOL-Library.Word" "HOL-Library.Sublist"
begin

unbundle bit_operations_syntax

chapter \<open>Forgy AI editor: a shallow embedding of the state-handling code\<close>

text \<open>
  The development follows the four source files: \<^verbatim>\<open>services/geminiService.ts\<close>
  (base64 framing and PCM conversion), \<^verbatim>\<open>hooks/useGeminiLive.ts\<close> (the realtime
  session wrapper), \<^verbatim>\<open>hooks/useSpeechRecognition.ts\<close> (the recognizer wrapper) and
  \<^verbatim>\<open>App.tsx\<close> (sessions, versions, transcript). React state and refs are fields of
  a record, handlers are functions from state to state, calls into the browser or the
  vendor SDK are entries of an effect log, and every \<^verbatim>\<open>await\<close> splits a handler in
  the part before it and the part after it.
\<close>

section \<open>services/geminiService.ts\<close>

subsection \<open>JavaScript values\<close>

type_synonym byte = "8 word"
type_synonym code_unit = "16 word"
type_synonym int16 = "16 word"

text \<open>
  A JavaScript number, as far as the audio path needs it: a finite value, NaN or an
  infinity. Samples of a \<^verbatim>\<open>Float32Array\<close> are binary fractions, and multiplying one by
  \<open>32768 = 2^15\<close> only moves its exponent, so the product is exact in double precision
  and the finite values are modelled by rationals.
\<close>

datatype number = Finite rat | NaN | PosInfinity | NegInfinity

datatype dom_exception = InvalidCharacterError | RangeError | NotSupportedError

text \<open>\<^verbatim>\<open>x * c\<close> for a positive finite constant \<open>c\<close>.\<close>

fun times_const :: "number \<Rightarrow> rat \<Rightarrow> number" where
  "times_const (Finite q) c = Finite (q * c)"
| "times_const NaN c = NaN"
| "times_const PosInfinity c = PosInfinity"
| "times_const NegInfinity c = NegInfinity"

text \<open>ECMAScript \<^verbatim>\<open>truncate\<close> (here \<open>trunc\<close>): rounding towards zero.\<close>

definition trunc :: "rat \<Rightarrow> int" where
  "trunc q = (if 0 \<le> q then \<lfloor>q\<rfloor> else \<lceil>q\<rceil>)"

text \<open>
  ECMAScript \<^verbatim>\<open>ToInt16\<close>, the conversion a store into an \<^verbatim>\<open>Int16Array\<close> applies:
  NaN and the infinities become 0, a finite number is truncated and reduced modulo
  \<open>2^16\<close>; \<^const>\<open>sint\<close> reads the result in two's complement.
\<close>

fun ToInt16 :: "number \<Rightarrow> int16" where
  "ToInt16 (Finite q) = word_of_int (trunc q)"
| "ToInt16 NaN = 0"
| "ToInt16 PosInfinity = 0"
| "ToInt16 NegInfinity = 0"

subsection \<open>The platform's \<^verbatim>\<open>btoa\<close> and \<^verbatim>\<open>atob\<close>\<close>

text \<open>
  \<^verbatim>\<open>btoa\<close> and \<^verbatim>\<open>atob\<close> are browser functions, not code of the repository. They are
  modelled after the HTML standard: \<^verbatim>\<open>btoa\<close> throws on a code unit above 255 and
  otherwise is RFC 4648 base64 with padding; \<^verbatim>\<open>atob\<close> is the forgiving-base64 decode
  (ASCII whitespace removed, one or two trailing \<^verbatim>\<open>=\<close> removed when the length is a
  multiple of four, failure on a length that is 1 modulo 4 or on a character outside
  the alphabet). Base64 text is a \<^typ>\<open>string\<close>; a binary string is a list of code units.
\<close>

definition b64_char :: "nat \<Rightarrow> char" where
  "b64_char n =
     (if n < 26 then char_of (65 + n)
      else if n < 52 then char_of (71 + n)
      else if n < 62 then char_of (n - 4)
      else if n = 62 then CHR ''+'' else CHR ''/'')"

definition b64_value :: "char \<Rightarrow> nat option" where
  "b64_value c =
     (let n = (of_char c :: nat) in
      if 65 \<le> n \<and> n \<le> 90 then Some (n - 65)
      else if 97 \<le> n \<and> n \<le> 122 then Some (n - 71)
      else if 48 \<le> n \<and> n \<le> 57 then Some (n + 4)
      else if n = 43 then Some 62
      else if n = 47 then Some 63
      else None)"

fun b64_sextets :: "nat list \<Rightarrow> nat list" where
  "b64_sextets [] = []"
| "b64_sextets [a] = [a div 4, (a mod 4) * 16]"
| "b64_sextets [a, b] = [a div 4, (a mod 4) * 16 + b div 16, (b mod 16) * 4]"
| "b64_sextets (a # b # c # rest) =
     [a div 4, (a mod 4) * 16 + b div 16, (b mod 16) * 4 + c div 64, c mod 64]
     @ b64_sextets rest"

definition b64_padding :: "nat \<Rightarrow> string" where
  "b64_padding len = replicate ((3 - len mod 3) mod 3) (CHR ''='')"

definition btoa :: "code_unit list \<Rightarrow> dom_exception + string" where
  "btoa s =
     (if \<exists>u \<in> set s. 255 < unat u then Inl InvalidCharacterError
      else Inr (map b64_char (b64_sextets (map unat s)) @ b64_padding (length s)))"

definition is_ascii_whitespace :: "char \<Rightarrow> bool" where
  "is_ascii_whitespace c = ((of_char c :: nat) \<in> {9, 10, 12, 13, 32})"

definition strip_padding :: "string \<Rightarrow> string" where
  "strip_padding s =
     (if length s mod 4 = 0 then
        (case rev s of
           x # y # r \<Rightarrow>
             if x = CHR ''='' \<and> y = CHR ''='' then rev r
             else if x = CHR ''='' then rev (y # r)
             else s
         | _ \<Rightarrow> s)
      else s)"

fun b64_octets :: "nat list \<Rightarrow> nat list" where
  "b64_octets (s1 # s2 # s3 # s4 # rest) =
     [s1 * 4 + s2 div 16, (s2 mod 16) * 16 + s3 div 4, (s3 mod 4) * 64 + s4]
     @ b64_octets rest"
| "b64_octets [s1, s2, s3] = [s1 * 4 + s2 div 16, (s2 mod 16) * 16 + s3 div 4]"
| "b64_octets [s1, s2] = [s1 * 4 + s2 div 16]"
| "b64_octets _ = []"

definition atob :: "string \<Rightarrow> dom_exception + code_unit list" where
  "atob s =
     (let d = strip_padding (filter (\<lambda>c. \<not> is_ascii_whitespace c) s) in
      if length d mod 4 = 1 then Inl InvalidCharacterError
      else (case those (map b64_value d) of
              None \<Rightarrow> Inl InvalidCharacterError
            | Some vs \<Rightarrow> Inr (map of_nat (b64_octets vs))))"

subsection \<open>\<^verbatim>\<open>decode\<close>, \<^verbatim>\<open>encode\<close>, \<^verbatim>\<open>createBlob\<close>, \<^verbatim>\<open>decodeAudioData\<close>\<close>

text \<open>
  \<^verbatim>\<open>decode\<close>: \<^verbatim>\<open>bytes[i] = binaryString.charCodeAt(i)\<close>; the store into a
  \<^verbatim>\<open>Uint8Array\<close> keeps the low eight bits.
\<close>

definition decode :: "string \<Rightarrow> dom_exception + byte list" where
  "decode base64 =
     (case atob base64 of
        Inl e \<Rightarrow> Inl e
      | Inr binaryString \<Rightarrow> Inr (map ucast binaryString))"

text \<open>\<^verbatim>\<open>encode\<close>: \<^verbatim>\<open>binary += String.fromCharCode(bytes[i])\<close>, then \<^verbatim>\<open>btoa(binary)\<close>.\<close>

definition fromCharCode :: "byte \<Rightarrow> code_unit" where
  "fromCharCode b = ucast b"

definition encode :: "byte list \<Rightarrow> dom_exception + string" where
  "encode bytes = btoa (map fromCharCode bytes)"

text \<open>
  \<^verbatim>\<open>createBlob\<close>: the loop \<^verbatim>\<open>int16[i] = data[i] * 32768\<close>, then the bytes of the
  \<^verbatim>\<open>Int16Array\<close>'s buffer (low byte first, as on every little-endian platform), encoded.
\<close>

definition createBlob_int16 :: "number list \<Rightarrow> int16 list" where
  "createBlob_int16 data = map (\<lambda>s. ToInt16 (times_const s 32768)) data"

definition int16_bytes :: "int16 \<Rightarrow> byte list" where
  "int16_bytes w = [ucast w, ucast (drop_bit 8 w)]"

record Blob =
  data :: string
  mimeType :: string

definition createBlob :: "number list \<Rightarrow> dom_exception + Blob" where
  "createBlob samples =
     (case encode (concat (map int16_bytes (createBlob_int16 samples))) of
        Inl e \<Rightarrow> Inl e
      | Inr d \<Rightarrow> Inr \<lparr>data = d, mimeType = ''audio/pcm;rate=16000''\<rparr>)"

text \<open>
  \<^verbatim>\<open>decodeAudioData\<close>: \<^verbatim>\<open>new Int16Array(data.buffer)\<close> throws a RangeError on an odd
  byte length, \<^verbatim>\<open>ctx.createBuffer\<close> throws NotSupportedError on a frame count of 0, and
  the buffer's duration is its frame count over the sample rate. The hook calls it with
  one channel.
\<close>

record AudioBuffer =
  channelData :: "rat list"
  duration :: rat

fun bytes_int16 :: "byte list \<Rightarrow> int16 list" where
  "bytes_int16 (lo # hi # rest) = (push_bit 8 (ucast hi) OR ucast lo) # bytes_int16 rest"
| "bytes_int16 _ = []"

definition decodeAudioData :: "byte list \<Rightarrow> nat \<Rightarrow> dom_exception + AudioBuffer" where
  "decodeAudioData bytes sampleRate =
     (if odd (length bytes) then Inl RangeError
      else let dataInt16 = bytes_int16 bytes; frameCount = length dataInt16 in
        if frameCount = 0 \<or> sampleRate = 0 then Inl NotSupportedError
        else Inr \<lparr>channelData = map (\<lambda>w. of_int (sint w) / 32768) dataInt16,
                  duration = of_nat frameCount / of_nat sampleRate\<rparr>)"

section \<open>hooks/useGeminiLive.ts\<close>

subsection \<open>The hook's state\<close>

text \<open>
  The promise that \<^verbatim>\<open>ai.live.connect\<close> returns comes from the vendor SDK; the hook only
  awaits it. It is described by its fate: it fulfils with a session, it rejects, or it
  never settles (the source puts no timeout on the await).
\<close>

datatype session_promise = Fulfills | Rejects | NeverSettles

text \<open>
  Calls the hook makes on objects it does not own, in the order it makes them: the vendor
  session, the microphone tracks (numbered), the audio nodes and contexts, the playback
  sources (numbered in the order of their creation; \<open>SourceStart i t d\<close> is
  \<^verbatim>\<open>source.start(t)\<close> on a source whose buffer lasts \<open>d\<close> seconds), and the callback
  props of the hook. Frames sent to the session (\<^verbatim>\<open>sendRealtimeInput\<close>,
  \<^verbatim>\<open>sendToolResponse\<close>) are not logged.
\<close>

datatype live_call =
    SessionClose
  | TrackStop nat
  | DisconnectSource
  | DisconnectProcessor
  | CloseInputContext
  | CloseOutputContext
  | SourceStart nat rat rat
  | SourceStop nat
  | OnInterimTranscript string
  | OnAiSpeakingStatusChange bool
  | OnTurnComplete string string
  | ConsoleError

text \<open>
  The state cells and refs of the hook. \<open>isLive\<close> is the current value of the cell,
  \<open>renderedIsLive\<close> the value the last committed render read, which the
  \<^verbatim>\<open>startSession\<close> callback of that render tests. A ref that holds an object or
  \<^verbatim>\<open>null\<close> is an option or a flag (\<open>True\<close>: an object is there); \<^verbatim>\<open>audioSourcesRef\<close>, a
  \<^verbatim>\<open>Set\<close>, is the list of its members in insertion order. Times are seconds on the
  output context's clock, as rationals. \<open>sourcesCreated\<close> counts the playback sources
  created so far and numbers the next one; \<open>calls\<close> is the log of calls.

  The asynchronous functions of the hook stop at their \<^verbatim>\<open>await\<close> and go on later, and
  other handlers can run in between. What is suspended is part of the state:
  \<open>pendingStarts\<close> counts the calls of \<^verbatim>\<open>startSession\<close> that wait for the microphone,
  \<open>pendingChunks\<close> holds, for each message handler that waits for its decoded buffer,
  the start time it has computed and the buffer, and \<open>pendingStops\<close> holds, for each
  call of \<^verbatim>\<open>stopSession\<close> that waits for the connection, the promise it awaits.
\<close>

record live_state =
  isLive :: bool
  renderedIsLive :: bool
  live_error :: "string option"
  sessionPromiseRef :: "session_promise option"
  streamRef :: "nat list option"
  sourceNode :: bool
  processorNode :: bool
  inputContext :: bool
  outputContext :: bool
  nextStartTimeRef :: rat
  audioSourcesRef :: "nat list"
  currentInputTranscriptionRef :: string
  currentOutputTranscriptionRef :: string
  sourcesCreated :: nat
  pendingStarts :: nat
  pendingChunks :: "(rat \<times> AudioBuffer) list"
  pendingStops :: "session_promise list"
  calls :: "live_call list"

definition initial_live :: live_state where
  "initial_live =
     \<lparr>isLive = False, renderedIsLive = False, live_error = None, sessionPromiseRef = None,
      streamRef = None, sourceNode = False, processorNode = False, inputContext = False,
      outputContext = False, nextStartTimeRef = 0, audioSourcesRef = [],
      currentInputTranscriptionRef = [], currentOutputTranscriptionRef = [],
      sourcesCreated = 0, pendingStarts = 0, pendingChunks = [], pendingStops = [],
      calls = []\<rparr>"

definition log_calls :: "live_call list \<Rightarrow> live_state \<Rightarrow> live_state" where
  "log_calls cs st = st\<lparr>calls := calls st @ cs\<rparr>"

text \<open>A render of the component: the callbacks it creates read the current \<^verbatim>\<open>isLive\<close>.\<close>

definition render_live :: "live_state \<Rightarrow> live_state" where
  "render_live st = st\<lparr>renderedIsLive := isLive st\<rparr>"

subsection \<open>\<^verbatim>\<open>stopSession\<close>\<close>

text \<open>
  \<open>stopSession_cleanup\<close> is the synchronous part of \<^verbatim>\<open>stopSession\<close>, from the stream to
  \<^verbatim>\<open>setIsLive(false)\<close>: each object that a ref holds is released and the ref set to
  \<^verbatim>\<open>null\<close>, every source of the set is stopped, the set is cleared, the watermark is
  reset, the interim transcript is cleared through the callback.
\<close>

definition stopSession_cleanup :: "live_state \<Rightarrow> live_state" where
  "stopSession_cleanup st =
     st\<lparr>streamRef := None,
        sourceNode := False,
        processorNode := False,
        inputContext := False,
        outputContext := False,
        audioSourcesRef := [],
        nextStartTimeRef := 0,
        isLive := False,
        calls := calls st
          @ (case streamRef st of None \<Rightarrow> [] | Some tracks \<Rightarrow> map TrackStop tracks)
          @ (if sourceNode st then [DisconnectSource] else [])
          @ (if processorNode st then [DisconnectProcessor] else [])
          @ (if inputContext st then [CloseInputContext] else [])
          @ (if outputContext st then [CloseOutputContext] else [])
          @ map SourceStop (audioSourcesRef st)
          @ [OnInterimTranscript '''']\<rparr>"

text \<open>
  \<^verbatim>\<open>stopSession\<close> first awaits the connection promise when the ref holds one:
  \<^verbatim>\<open>try { const session = await sessionPromiseRef.current; session.close(); } catch (e) {}\<close>,
  then clears the ref; the cleanup follows.

  \<open>stopSession_begin\<close> is the call up to that await: without a promise in the ref it
  runs the cleanup at once, with one it is suspended. \<open>stopSession_resume\<close> is the part
  after the await, on the state of that later moment, for the promise that was awaited:
  the session is closed when the promise fulfilled, the ref is cleared, the cleanup
  runs. It does not run while the promise is pending: the result is \<open>None\<close> for a
  promise that never settles. \<open>stopSession\<close> is a call that no other handler
  interrupts.
\<close>

definition stopSession_begin :: "live_state \<Rightarrow> live_state" where
  "stopSession_begin st =
     (case sessionPromiseRef st of
        None \<Rightarrow> stopSession_cleanup st
      | Some p \<Rightarrow> st\<lparr>pendingStops := pendingStops st @ [p]\<rparr>)"

fun stopSession_resume :: "session_promise \<Rightarrow> live_state \<Rightarrow> live_state option" where
  "stopSession_resume Fulfills st =
     Some (stopSession_cleanup ((log_calls [SessionClose] st)\<lparr>sessionPromiseRef := None\<rparr>))"
| "stopSession_resume Rejects st =
     Some (stopSession_cleanup (st\<lparr>sessionPromiseRef := None\<rparr>))"
| "stopSession_resume NeverSettles st = None"

definition stopSession :: "live_state \<Rightarrow> live_state option" where
  "stopSession st =
     (case sessionPromiseRef st of
        None \<Rightarrow> Some (stopSession_cleanup st)
      | Some p \<Rightarrow> stopSession_resume p st)"

text \<open>
  The \<open>k\<close>-th suspended call of \<^verbatim>\<open>stopSession\<close> goes on; nothing happens while its
  promise is pending.
\<close>

definition resume_stop :: "nat \<Rightarrow> live_state \<Rightarrow> live_state" where
  "resume_stop k st =
     (if k < length (pendingStops st) then
        (case stopSession_resume (pendingStops st ! k)
                (st\<lparr>pendingStops := take k (pendingStops st) @ drop (Suc k) (pendingStops st)\<rparr>) of
           None \<Rightarrow> st
         | Some st' \<Rightarrow> st')
      else st)"

subsection \<open>\<^verbatim>\<open>startSession\<close> and \<^verbatim>\<open>onopen\<close>\<close>

text \<open>
  \<^verbatim>\<open>startSession\<close> returns at once when its render read \<^verbatim>\<open>isLive\<close> as true.
  Otherwise it clears the error and the two transcription refs and awaits
  \<^verbatim>\<open>getUserMedia\<close>; \<open>startSession_resume\<close> is the part after that await, for one
  suspended call. Its arguments are the tracks of the stream (none when the permission
  was refused) and the promise \<^verbatim>\<open>connect\<close> returned (none when \<^verbatim>\<open>getAiClient\<close>
  threw). It overwrites the stream ref, both context refs and the promise ref with the
  new objects, whatever they held. A failure runs the \<^verbatim>\<open>catch\<close> block, which logs,
  sets the error and calls \<^verbatim>\<open>stopSession\<close> without awaiting it.
\<close>

definition startSession_begin :: "live_state \<Rightarrow> live_state" where
  "startSession_begin st =
     (if renderedIsLive st then st
      else st\<lparr>live_error := None,
              currentInputTranscriptionRef := [],
              currentOutputTranscriptionRef := [],
              pendingStarts := Suc (pendingStarts st)\<rparr>)"

definition startSession_catch :: "live_state \<Rightarrow> live_state" where
  "startSession_catch st =
     stopSession_begin ((log_calls [ConsoleError] st)\<lparr>live_error := Some ''Connection failed''\<rparr>)"

definition startSession_resume ::
  "nat list option \<Rightarrow> session_promise option \<Rightarrow> live_state \<Rightarrow> live_state" where
  "startSession_resume media promise st =
     (if pendingStarts st = 0 then st
      else
        (let st0 = st\<lparr>pendingStarts := pendingStarts st - 1\<rparr> in
         case media of
           None \<Rightarrow> startSession_catch st0
         | Some tracks \<Rightarrow>
             (let st1 = st0\<lparr>streamRef := Some tracks, inputContext := True,
                             outputContext := True\<rparr> in
              case promise of
                None \<Rightarrow> startSession_catch st1
              | Some p \<Rightarrow> st1\<lparr>sessionPromiseRef := Some p\<rparr>)))"

definition onopen :: "live_state \<Rightarrow> live_state" where
  "onopen st =
     (let st1 = st\<lparr>isLive := True\<rparr> in
      if \<not> inputContext st1 \<or> streamRef st1 = None then st1
      else st1\<lparr>sourceNode := True, processorNode := True\<rparr>)"

subsection \<open>\<^verbatim>\<open>onmessage\<close>\<close>

text \<open>
  A server message, as far as the hook reads it: the text of an input and of an output
  transcription, the turn-complete flag, and the base64 audio of the first part of the
  model turn. Tool calls are handed to the component (\<^verbatim>\<open>handleFunctionCall\<close>), after
  the audio branch.
\<close>

record server_message =
  inputTranscription :: "string option"
  outputTranscription :: "string option"
  turnComplete :: bool
  audioData :: "string option"

definition onmessage_transcripts :: "server_message \<Rightarrow> live_state \<Rightarrow> live_state" where
  "onmessage_transcripts msg st =
     (let st1 = (case inputTranscription msg of
                   None \<Rightarrow> st
                 | Some t \<Rightarrow>
                     log_calls [OnInterimTranscript (currentInputTranscriptionRef st @ t)]
                       (st\<lparr>currentInputTranscriptionRef := currentInputTranscriptionRef st @ t\<rparr>));
          st2 = (case outputTranscription msg of
                   None \<Rightarrow> st1
                 | Some t \<Rightarrow>
                     st1\<lparr>currentOutputTranscriptionRef := currentOutputTranscriptionRef st1 @ t\<rparr>)
      in if turnComplete msg
         then (log_calls
                 [OnTurnComplete (currentInputTranscriptionRef st2) (currentOutputTranscriptionRef st2),
                  OnInterimTranscript '''']
                 st2)\<lparr>currentInputTranscriptionRef := [], currentOutputTranscriptionRef := []\<rparr>
         else st2)"

text \<open>
  The audio branch, for a chunk that arrives when the output context's clock shows
  \<open>now\<close>. It is skipped when there is no audio (or an empty string) or no output
  context. \<open>onmessage_audio_begin\<close> is the branch up to its await: the speaking status
  is raised when no source is playing, the start time is
  \<^verbatim>\<open>Math.max(nextStartTimeRef.current, ctx.currentTime)\<close>, and the operand of the
  await is evaluated: \<^verbatim>\<open>decode\<close> and the body of \<^verbatim>\<open>decodeAudioData\<close> (24000 Hz, one
  channel), which has no await of its own, run at once. An exception of \<^verbatim>\<open>decode\<close>
  ends the handler there; one inside \<^verbatim>\<open>decodeAudioData\<close> rejects the awaited promise,
  and the handler does nothing more. Otherwise the handler is suspended with its start
  time and the buffer. \<open>onmessage_audio_resume\<close> is the branch after the await, on the
  state of that later moment: a new source is started at the start time computed before the await,
  the watermark is set to that start time plus the buffer's duration, and the source is
  added to the set. The context is the one read before the await; the refs are not
  tested again.
\<close>

definition onmessage_audio_begin ::
  "rat \<Rightarrow> server_message \<Rightarrow> live_state \<Rightarrow> live_state \<times> (rat \<times> AudioBuffer) option" where
  "onmessage_audio_begin now msg st =
     (case audioData msg of
        None \<Rightarrow> (st, None)
      | Some a \<Rightarrow>
          if a = [] \<or> \<not> outputContext st then (st, None)
          else
            (let st1 = (if audioSourcesRef st = []
                        then log_calls [OnAiSpeakingStatusChange True] st else st);
                 start = max (nextStartTimeRef st1) now
             in case decode a of
                  Inl e \<Rightarrow> (st1, None)
                | Inr bytes \<Rightarrow>
                    (case decodeAudioData bytes 24000 of
                       Inl e \<Rightarrow> (st1, None)
                     | Inr buffer \<Rightarrow> (st1, Some (start, buffer)))))"

definition onmessage_audio_resume :: "rat \<times> AudioBuffer \<Rightarrow> live_state \<Rightarrow> live_state" where
  "onmessage_audio_resume chunk st =
     (case chunk of
        (start, buffer) \<Rightarrow>
          (log_calls [SourceStart (sourcesCreated st) start (duration buffer)] st)
            \<lparr>nextStartTimeRef := start + duration buffer,
             audioSourcesRef := audioSourcesRef st @ [sourcesCreated st],
             sourcesCreated := Suc (sourcesCreated st)\<rparr>)"

text \<open>
  \<open>onmessage_begin\<close>: a handler runs up to the await of its audio branch (or to its end,
  when the branch is skipped or throws). \<open>resume_chunk\<close>: the \<open>k\<close>-th suspended handler
  goes on. \<open>onmessage\<close>: a handler that goes on from its await before anything else runs.
\<close>

definition onmessage_begin :: "rat \<Rightarrow> server_message \<Rightarrow> live_state \<Rightarrow> live_state" where
  "onmessage_begin now msg st =
     (case onmessage_audio_begin now msg (onmessage_transcripts msg st) of
        (st1, None) \<Rightarrow> st1
      | (st1, Some chunk) \<Rightarrow> st1\<lparr>pendingChunks := pendingChunks st1 @ [chunk]\<rparr>)"

definition resume_chunk :: "nat \<Rightarrow> live_state \<Rightarrow> live_state" where
  "resume_chunk k st =
     (if k < length (pendingChunks st) then
        onmessage_audio_resume (pendingChunks st ! k)
          (st\<lparr>pendingChunks := take k (pendingChunks st) @ drop (Suc k) (pendingChunks st)\<rparr>)
      else st)"

definition onmessage :: "rat \<Rightarrow> server_message \<Rightarrow> live_state \<Rightarrow> live_state" where
  "onmessage now msg st =
     (case onmessage_audio_begin now msg (onmessage_transcripts msg st) of
        (st1, None) \<Rightarrow> st1
      | (st1, Some chunk) \<Rightarrow> onmessage_audio_resume chunk st1)"

text \<open>\<^verbatim>\<open>source.onended\<close>: the source leaves the set; the speaking status drops with the last one.\<close>

definition onended :: "nat \<Rightarrow> live_state \<Rightarrow> live_state" where
  "onended i st =
     (let st1 = st\<lparr>audioSourcesRef := removeAll i (audioSourcesRef st)\<rparr> in
      if audioSourcesRef st1 = [] then log_calls [OnAiSpeakingStatusChange False] st1 else st1)"

subsection \<open>Executions of the hook\<close>

text \<open>
  One event at a time: a call of \<^verbatim>\<open>startSession\<close> begins, or goes on after the
  microphone answered; the connection opens; a message handler begins, goes on, or runs
  uninterrupted (\<open>Message\<close>); a source ends; \<^verbatim>\<open>stopSession\<close> is called (by the
  component, or by the connection's \<^verbatim>\<open>onclose\<close> and \<^verbatim>\<open>onerror\<close>), or goes on after its
  await; the component renders.
\<close>

datatype live_event =
    StartBegin
  | StartResume "nat list option" "session_promise option"
  | Open
  | Message rat server_message
  | MessageBegin rat server_message
  | MessageResume nat
  | Ended nat
  | Stop
  | StopResume nat
  | RenderLive

fun live_step :: "live_event \<Rightarrow> live_state \<Rightarrow> live_state" where
  "live_step StartBegin st = startSession_begin st"
| "live_step (StartResume media promise) st = startSession_resume media promise st"
| "live_step Open st = onopen st"
| "live_step (Message now msg) st = onmessage now msg st"
| "live_step (MessageBegin now msg) st = onmessage_begin now msg st"
| "live_step (MessageResume k) st = resume_chunk k st"
| "live_step (Ended i) st = onended i st"
| "live_step Stop st = stopSession_begin st"
| "live_step (StopResume k) st = resume_stop k st"
| "live_step RenderLive st = render_live st"

definition live_run :: "live_event list \<Rightarrow> live_state \<Rightarrow> live_state" where
  "live_run evs st = fold live_step evs st"

text \<open>
  The events of a stretch of playback in which every message handler goes on from its
  await before the next event: uninterrupted messages and ended sources.
\<close>

fun uninterrupted :: "live_event \<Rightarrow> bool" where
  "uninterrupted (Message now msg) = True"
| "uninterrupted (Ended i) = True"
| "uninterrupted ev = False"

text \<open>The times at which the calls of a log start a source, with the buffer's end.\<close>

fun scheduled :: "live_call list \<Rightarrow> (rat \<times> rat) list" where
  "scheduled [] = []"
| "scheduled (SourceStart i t d # cs) = (t, t + d) # scheduled cs"
| "scheduled (c # cs) = scheduled cs"

text \<open>
  \<open>chained w ivs\<close>: the intervals \<open>ivs\<close> follow one another without overlap, the first
  starting no earlier than \<open>w\<close>, each later one no earlier than the end of the one before.
\<close>

fun chained :: "rat \<Rightarrow> (rat \<times> rat) list \<Rightarrow> bool" where
  "chained w [] = True"
| "chained w ((t, e) # ivs) = (w \<le> t \<and> t \<le> e \<and> chained e ivs)"

section \<open>hooks/useSpeechRecognition.ts\<close>

subsection \<open>The hook's state\<close>






subsection \<open>The handlers\<close>










subsection \<open>Executions of the hook\<close>




subsection \<open>An invariant of executions\<close>


section \<open>App.tsx\<close>

subsection \<open>The data model\<close>

datatype media_type = ImageType | VideoType

record MediaVersion =
  src :: string
  prompt :: string
  type :: media_type

text \<open>The field \<^verbatim>\<open>id\<close> of a session is \<open>id'\<close> here (\<open>id\<close> is HOL's identity function).\<close>

record Session =
  id' :: string
  versions :: "MediaVersion list"
  transcript :: "string list"
  currentIndex :: nat

subsection \<open>The component's state\<close>

text \<open>
  The state of \<^verbatim>\<open>App\<close>: the \<^verbatim>\<open>useState\<close> cells the handlers write, the two refs that
  mirror \<^verbatim>\<open>sessions\<close> and \<^verbatim>\<open>activeSessionId\<close>, and what the handlers leave behind in
  the browser: pending \<^verbatim>\<open>setTimeout\<close> callbacks (delay in milliseconds and action), the
  number of running scribble intervals, the number of \<^verbatim>\<open>console.error\<close> calls and the
  calls of \<^verbatim>\<open>playSound\<close>, each by the sound it asks for. The ticks of a scribble
  interval only call \<^verbatim>\<open>playSound\<close> and are left out, and so are the cells that no
  handler below writes (\<^verbatim>\<open>isKeyReady\<close>, and \<^verbatim>\<open>isAiSpeaking\<close> and
  \<^verbatim>\<open>interimTranscript\<close>, which the live hook sets through its callbacks).
\<close>

datatype timeout_action = SetIsSuccessAnimFalse | SetErrorNull | NoAction

datatype sound = SoundStart | SoundScribble | SoundSuccess | SoundError

record app_state =
  sessions :: "Session list"
  activeSessionId :: "string option"
  isLoading :: bool
  isSuccessAnim :: bool
  error :: "string option"
  sessionsRef :: "Session list"
  activeSessionIdRef :: "string option"
  timeouts :: "(nat \<times> timeout_action) list"
  scribbleIntervals :: nat
  consoleErrors :: nat
  sounds :: "sound list"

definition initial_app :: app_state where
  "initial_app =
     \<lparr>sessions = [], activeSessionId = None, isLoading = False, isSuccessAnim = False,
      error = None, sessionsRef = [], activeSessionIdRef = None, timeouts = [],
      scribbleIntervals = 0, consoleErrors = 0, sounds = []\<rparr>"

text \<open>
  The effect with dependencies \<^verbatim>\<open>[sessions, activeSessionId]\<close>: after a render in which
  one of them changed, both refs are overwritten. \<open>prev\<close> is the state of the previous
  render.
\<close>

definition sync_refs :: "app_state \<Rightarrow> app_state \<Rightarrow> app_state" where
  "sync_refs prev st =
     (if sessions st \<noteq> sessions prev \<or> activeSessionId st \<noteq> activeSessionId prev
      then st\<lparr>sessionsRef := sessions st, activeSessionIdRef := activeSessionId st\<rparr>
      else st)"

text \<open>
  \<^verbatim>\<open>sessions.find(s => s.id === id)\<close> for a nullable \<^verbatim>\<open>id\<close>: the first session with that
  identifier, none when \<^verbatim>\<open>id\<close> is \<^verbatim>\<open>null\<close>. \<^verbatim>\<open>handleGenerate\<close> calls it on the refs, the
  render (\<^verbatim>\<open>activeSession\<close>, the session on display) on the state.
\<close>

definition find_session :: "Session list \<Rightarrow> string option \<Rightarrow> Session option" where
  "find_session ss i = (case i of None \<Rightarrow> None | Some j \<Rightarrow> find (\<lambda>s. id' s = j) ss)"

definition activeSession :: "app_state \<Rightarrow> Session option" where
  "activeSession st = find_session (sessions st) (activeSessionId st)"

subsection \<open>\<^verbatim>\<open>updateSession\<close> and \<^verbatim>\<open>handleTurnComplete\<close>\<close>

text \<open>
  \<^verbatim>\<open>if (id) setSessions(prev => prev.map(s => s.id === id ? updater(s) : s))\<close>, with
  \<^verbatim>\<open>id\<close> read from \<^verbatim>\<open>activeSessionIdRef.current\<close> when the call is made. \<^verbatim>\<open>null\<close> and
  the empty string are falsy.
\<close>

definition updateSession :: "(Session \<Rightarrow> Session) \<Rightarrow> app_state \<Rightarrow> app_state" where
  "updateSession updater st =
     (case activeSessionIdRef st of
        None \<Rightarrow> st
      | Some i \<Rightarrow>
          if i = [] then st
          else st\<lparr>sessions := map (\<lambda>s. if id' s = i then updater s else s) (sessions st)\<rparr>)"

definition turn_lines :: "string \<Rightarrow> string \<Rightarrow> string list" where
  "turn_lines user ai =
     (if user \<noteq> [] then [''**You:** '' @ user] else [])
     @ (if ai \<noteq> [] then [''**AI:** '' @ ai] else [])"

definition handleTurnComplete :: "string \<Rightarrow> string \<Rightarrow> app_state \<Rightarrow> app_state" where
  "handleTurnComplete user ai st =
     (case activeSessionIdRef st of
        None \<Rightarrow> st
      | Some i \<Rightarrow>
          if i = [] then st
          else st\<lparr>sessions :=
                 map (\<lambda>s. if id' s = i
                           then s\<lparr>transcript := transcript s @ turn_lines user ai\<rparr>
                           else s)
                     (sessions st)\<rparr>)"

subsection \<open>\<^verbatim>\<open>handleGenerate\<close>\<close>

text \<open>
  \<^verbatim>\<open>handleGenerate\<close> is asynchronous: it awaits \<^verbatim>\<open>editImage\<close>, a network call, and other
  handlers run while it waits. \<open>handleGenerate_begin\<close> is the part before the await: it
  looks the session up through the refs, returns \<^verbatim>\<open>{ error: "No session" }\<close> when there
  is none, and otherwise starts the sounds and the scribble interval and reads the source
  image, the \<^verbatim>\<open>src\<close> of the last version (on a session without versions that read
  throws inside the \<^verbatim>\<open>try\<close>, so the \<^verbatim>\<open>catch\<close> branch runs at once).
  \<open>handleGenerate_settle\<close> is the part after the await, on the state of that later
  moment: the \<^verbatim>\<open>try\<close> branch when \<^verbatim>\<open>editImage\<close> resolved with a data URI, the
  \<^verbatim>\<open>catch\<close> branch when it threw, and \<^verbatim>\<open>finally\<close> after either.
\<close>

datatype gen_result = GenSuccess | GenError string

datatype edit_request = NoSession | SourceMissing | EditImage string string

definition handleGenerate_begin :: "string \<Rightarrow> app_state \<Rightarrow> app_state \<times> edit_request" where
  "handleGenerate_begin p st =
     (case find_session (sessionsRef st) (activeSessionIdRef st) of
        None \<Rightarrow> (st, NoSession)
      | Some session \<Rightarrow>
          (st\<lparr>isLoading := True,
              sounds := sounds st @ [SoundStart, SoundScribble],
              scribbleIntervals := Suc (scribbleIntervals st)\<rparr>,
           if versions session = [] then SourceMissing
           else EditImage (src (last (versions session))) p))"

definition handleGenerate_finally :: "app_state \<Rightarrow> app_state" where
  "handleGenerate_finally st =
     st\<lparr>scribbleIntervals := scribbleIntervals st - 1, isLoading := False\<rparr>"

definition append_version :: "string \<Rightarrow> string \<Rightarrow> Session \<Rightarrow> Session" where
  "append_version resultUrl p s =
     s\<lparr>versions := versions s @ [\<lparr>src = resultUrl, prompt = p, type = ImageType\<rparr>],
       currentIndex := length (versions s)\<rparr>"

definition handleGenerate_settle ::
  "string \<Rightarrow> string option \<Rightarrow> app_state \<Rightarrow> app_state \<times> gen_result" where
  "handleGenerate_settle p outcome st =
     (case outcome of
        Some resultUrl \<Rightarrow>
          (let st1 = updateSession (append_version resultUrl p) st in
           (handleGenerate_finally
              (st1\<lparr>isSuccessAnim := True,
                    sounds := sounds st1 @ [SoundSuccess],
                    timeouts := timeouts st1 @ [(4000, SetIsSuccessAnimFalse)]\<rparr>),
            GenSuccess))
      | None \<Rightarrow>
          (handleGenerate_finally
             (st\<lparr>consoleErrors := Suc (consoleErrors st),
                  sounds := sounds st @ [SoundError],
                  error := Some ''Generation failed. Please try again.'',
                  timeouts := timeouts st @ [(3000, SetErrorNull)]\<rparr>),
           GenError ''Failed''))"

subsection \<open>\<^verbatim>\<open>handleImageUpload\<close>, the header and the timeline\<close>

text \<open>\<^verbatim>\<open>Date.now().toString()\<close>: the decimal digits of a number of milliseconds.\<close>

fun toString :: "nat \<Rightarrow> string" where
  "toString n =
     (if n < 10 then [char_of (48 + n)]
      else toString (n div 10) @ [char_of (48 + n mod 10)])"

declare toString.simps [simp del]

text \<open>
  \<^verbatim>\<open>handleImageUpload\<close> sets \<^verbatim>\<open>isLoading\<close> and awaits \<^verbatim>\<open>fileToBase64\<close>;
  \<open>handleImageUpload_settle\<close> is the part after the await, given the value of
  \<^verbatim>\<open>Date.now()\<close> and the data URI the reader produced (none when reading failed).
\<close>

definition handleImageUpload_begin :: "app_state \<Rightarrow> app_state" where
  "handleImageUpload_begin st = st\<lparr>isLoading := True\<rparr>"

definition newSession :: "nat \<Rightarrow> string \<Rightarrow> Session" where
  "newSession now base64 =
     \<lparr>id' = toString now,
      versions = [\<lparr>src = base64, prompt = ''Original'', type = ImageType\<rparr>],
      transcript = [],
      currentIndex = 0\<rparr>"

definition handleImageUpload_settle :: "nat \<Rightarrow> string option \<Rightarrow> app_state \<Rightarrow> app_state" where
  "handleImageUpload_settle now outcome st =
     (case outcome of
        Some base64 \<Rightarrow>
          st\<lparr>sessions := sessions st @ [newSession now base64],
             activeSessionId := Some (id' (newSession now base64)),
             timeouts := timeouts st @ [(500, NoAction)],
             isLoading := False\<rparr>
      | None \<Rightarrow> st\<lparr>consoleErrors := Suc (consoleErrors st), isLoading := False\<rparr>)"

definition onSelect :: "string \<Rightarrow> app_state \<Rightarrow> app_state" where
  "onSelect i st = st\<lparr>activeSessionId := Some i\<rparr>"

definition onNew :: "app_state \<Rightarrow> app_state" where
  "onNew st = st\<lparr>activeSessionId := None\<rparr>"

definition selectVersion :: "nat \<Rightarrow> app_state \<Rightarrow> app_state" where
  "selectVersion i st = updateSession (\<lambda>s. s\<lparr>currentIndex := i\<rparr>) st"

fun run_timeout :: "timeout_action \<Rightarrow> app_state \<Rightarrow> app_state" where
  "run_timeout SetIsSuccessAnimFalse st = st\<lparr>isSuccessAnim := False\<rparr>"
| "run_timeout SetErrorNull st = st\<lparr>error := None\<rparr>"
| "run_timeout NoAction st = st"

definition fire_timeout :: "nat \<Rightarrow> app_state \<Rightarrow> app_state" where
  "fire_timeout k st =
     (if k < length (timeouts st)
      then run_timeout (snd (timeouts st ! k))
             (st\<lparr>timeouts := take k (timeouts st) @ drop (Suc k) (timeouts st)\<rparr>)
      else st)"

subsection \<open>Runs of the component\<close>

text \<open>
  What can happen to the component, one event at a time: an upload starts or its file
  read settles, an edit starts or its \<^verbatim>\<open>editImage\<close> call settles, the live session
  reports a completed turn, the user picks a session, presses "new" or picks a version,
  a timeout fires. After each handler the component renders and the ref effect runs.
\<close>

datatype app_event =
    UploadBegin
  | UploadSettle nat "string option"
  | GenerateBegin string
  | GenerateSettle string "string option"
  | TurnComplete string string
  | Select string
  | New
  | SelectVersion nat
  | Timeout nat

fun app_handler :: "app_event \<Rightarrow> app_state \<Rightarrow> app_state" where
  "app_handler UploadBegin st = handleImageUpload_begin st"
| "app_handler (UploadSettle now outcome) st = handleImageUpload_settle now outcome st"
| "app_handler (GenerateBegin p) st =
     (case handleGenerate_begin p st of
        (st1, SourceMissing) \<Rightarrow> fst (handleGenerate_settle p None st1)
      | (st1, _) \<Rightarrow> st1)"
| "app_handler (GenerateSettle p outcome) st = fst (handleGenerate_settle p outcome st)"
| "app_handler (TurnComplete user ai) st = handleTurnComplete user ai st"
| "app_handler (Select i) st = onSelect i st"
| "app_handler New st = onNew st"
| "app_handler (SelectVersion i) st = selectVersion i st"
| "app_handler (Timeout k) st = fire_timeout k st"

definition app_step :: "app_event \<Rightarrow> app_state \<Rightarrow> app_state" where
  "app_step ev st = sync_refs st (app_handler ev st)"

definition app_run :: "app_event list \<Rightarrow> app_state \<Rightarrow> app_state" where
  "app_run evs st = fold app_step evs st"

section \<open>Properties of the service module\<close>

subsection \<open>Base64 round trip\<close>

lemma b64_value_char: "n < 64 \<Longrightarrow> b64_value (b64_char n) = Some n"
  by (auto simp add: b64_value_def b64_char_def Let_def)

lemma b64_value_pad: "b64_value (CHR ''='') = None"
  by (simp add: b64_value_def)

lemma b64_char_not_pad: "n < 64 \<Longrightarrow> b64_char n \<noteq> CHR ''=''"
  using b64_value_char [of n] b64_value_pad by auto

lemma b64_char_not_ws: "n < 64 \<Longrightarrow> \<not> is_ascii_whitespace (b64_char n)"
  by (auto simp add: b64_char_def is_ascii_whitespace_def)

lemma pad_not_ws: "\<not> is_ascii_whitespace (CHR ''='')"
  by (simp add: is_ascii_whitespace_def)

lemma b64_sextets_bound: "\<forall>x \<in> set xs. x < 256 \<Longrightarrow> \<forall>s \<in> set (b64_sextets xs). s < 64"
  by (induction xs rule: b64_sextets.induct) auto

lemma b64_octets_sextets: "\<forall>x \<in> set xs. x < 256 \<Longrightarrow> b64_octets (b64_sextets xs) = xs"
  by (induction xs rule: b64_sextets.induct) auto

lemma those_map_b64_value:
  "\<forall>s \<in> set ss. s < 64 \<Longrightarrow> those (map b64_value (map b64_char ss)) = Some ss"
  by (induction ss) (auto simp: b64_value_char)

lemma div3_Suc3: "Suc (Suc (Suc n)) div 3 = Suc (n div 3)"
  by presburger

lemma mod3_Suc3: "Suc (Suc (Suc n)) mod 3 = n mod 3"
  by presburger

lemma length_b64_sextets:
  "length (b64_sextets xs) =
     4 * (length xs div 3) + (if length xs mod 3 = 0 then 0 else length xs mod 3 + 1)"
  by (induction xs rule: b64_sextets.induct) (simp_all add: div3_Suc3 mod3_Suc3)

lemma b64_sextets_pad:
  "(length (b64_sextets xs) + (3 - length xs mod 3) mod 3) mod 4 = 0
   \<and> length (b64_sextets xs) mod 4 \<noteq> 1
   \<and> (0 < (3 - length xs mod 3) mod 3 \<longrightarrow> 2 \<le> length (b64_sextets xs))
   \<and> (3 - length xs mod 3) mod 3 \<le> 2"
proof -
  have "length xs mod 3 < 3" by simp
  then consider "length xs mod 3 = 0" | "length xs mod 3 = 1" | "length xs mod 3 = 2"
    by linarith
  then show ?thesis
  proof cases
    case 1
    then show ?thesis by (simp add: length_b64_sextets)
  next
    case 2
    have "Suc (Suc (4 * (length xs div 3))) mod 4 = 2" by presburger
    with 2 show ?thesis by (simp add: length_b64_sextets)
  next
    case 3
    have "Suc (Suc (Suc (4 * (length xs div 3)))) mod 4 = 3" by presburger
    with 3 show ?thesis by (simp add: length_b64_sextets)
  qed
qed

lemma strip_padding_data:
  assumes "\<forall>c \<in> set d. c \<noteq> CHR ''=''" and "(length d + k) mod 4 = 0" and "k \<le> 2"
    and "k > 0 \<longrightarrow> length d \<ge> 2"
  shows "strip_padding (d @ replicate k (CHR ''='')) = d"
proof (cases d rule: rev_cases)
  case Nil
  then have "k = 0" using assms(4) by auto
  then show ?thesis using Nil by (simp add: strip_padding_def)
next
  case (snoc d' x)
  then have x: "x \<noteq> CHR ''=''" using assms(1) by simp
  consider "k = 0" | "k = 1" | "k = 2" using assms(3) by linarith
  then show ?thesis
  proof cases
    case 1
    then show ?thesis using snoc x by (simp add: strip_padding_def split: list.splits)
  next
    case 2
    then show ?thesis using snoc x assms(2) by (simp add: strip_padding_def)
  next
    case 3
    then show ?thesis using snoc assms(2) by (simp add: strip_padding_def numeral_2_eq_2)
  qed
qed

lemma atob_btoa:
  assumes "\<forall>u \<in> set s. unat u \<le> 255"
  shows "\<exists>t. btoa s = Inr t \<and> atob t = Inr s"
proof -
  let ?xs = "map unat s"
  let ?d = "map b64_char (b64_sextets ?xs)"
  let ?k = "(3 - length s mod 3) mod 3"
  have xs: "\<forall>x \<in> set ?xs. x < 256" using assms by auto
  have sx: "\<forall>v \<in> set (b64_sextets ?xs). v < 64" using b64_sextets_bound [OF xs] .
  have t: "btoa s = Inr (?d @ replicate ?k (CHR ''=''))"
    using assms by (auto simp: btoa_def b64_padding_def not_less)
  have nows: "filter (\<lambda>c. \<not> is_ascii_whitespace c) (?d @ replicate ?k (CHR ''=''))
      = ?d @ replicate ?k (CHR ''='')"
    using sx by (auto simp: filter_id_conv b64_char_not_ws pad_not_ws)
  note pad = b64_sextets_pad [of ?xs, simplified length_map]
  have strip: "strip_padding (?d @ replicate ?k (CHR ''='')) = ?d"
  proof (rule strip_padding_data)
    show "\<forall>c \<in> set ?d. c \<noteq> CHR ''=''" using sx by (auto simp: b64_char_not_pad)
    show "(length ?d + ?k) mod 4 = 0" using pad by simp
    show "?k \<le> 2" using pad by simp
    show "?k > 0 \<longrightarrow> length ?d \<ge> 2" using pad by simp
  qed
  have l1: "length ?d mod 4 \<noteq> 1" using pad by simp
  have th: "those (map b64_value ?d) = Some (b64_sextets ?xs)"
    using those_map_b64_value [OF sx] .
  have oc: "map of_nat (b64_octets (b64_sextets ?xs)) = s"
    by (simp add: b64_octets_sextets [OF xs] map_idI)
  show ?thesis
    unfolding t using nows strip l1 th oc by (simp add: atob_def Let_def)
qed

lemma unat_byte_le: "unat (b :: byte) \<le> 255"
  using unsigned_less [of b, where 'a=nat] by simp

lemma unat_fromCharCode: "unat (fromCharCode b) = unat b"
proof -
  have "unat b < 2 ^ 16" using unat_byte_le [of b] by simp
  then have "take_bit 16 (unat b) = unat b" by (simp only: take_bit_nat_eq_self)
  then show ?thesis by (simp add: fromCharCode_def unsigned_ucast_eq)
qed

lemma ucast_fromCharCode: "(ucast (fromCharCode b) :: byte) = b"
  by (simp add: fromCharCode_def ucast_up_ucast_id is_up)

lemma encode_then_decode: "\<exists>t. encode b = Inr t \<and> decode t = Inr b"
proof -
  have "\<forall>u \<in> set (map fromCharCode b). unat u \<le> 255"
    by (auto simp: unat_fromCharCode unat_byte_le)
  from atob_btoa [OF this] obtain t where t: "btoa (map fromCharCode b) = Inr t"
    "atob t = Inr (map fromCharCode b)" by blast
  have "map ucast (map fromCharCode b) = b"
    by (simp add: map_idI ucast_fromCharCode o_def)
  then show ?thesis using t by (simp add: encode_def decode_def)
qed

text \<open>
  Claim C9. For every byte array \<open>b\<close>, \<^verbatim>\<open>encode\<close> returns a base64 text (it does not
  throw) and \<^verbatim>\<open>decode\<close> of that text returns \<open>b\<close> itself: the decoder inverts the
  encoder on every \<^verbatim>\<open>Uint8Array\<close>.
\<close>

theorem decode_encode: "\<exists>t. encode b = Inr t \<and> decode t = Inr b"
  by (rule encode_then_decode)

subsection \<open>PCM conversion\<close>

lemma sint_word_of_int16: "sint (word_of_int k :: 16 word) = (k + 32768) mod 65536 - 32768"
  by (simp add: sint_sbintrunc' signed_take_bit_eq_take_bit_shift take_bit_eq_mod)

lemma trunc_range:
  assumes "- 1 \<le> s" "s < 1"
  shows "- 32768 \<le> trunc (s * 32768) \<and> trunc (s * 32768) < 32768"
proof (cases "0 \<le> s")
  case True
  then have "0 \<le> s * 32768" by simp
  moreover have "s * 32768 < 32768" using assms(2) by simp
  ultimately show ?thesis by (simp add: trunc_def floor_less_iff le_floor_iff)
next
  case False
  then have "s * 32768 < 0" by simp
  moreover have "- 32768 \<le> s * 32768" using assms(1) by simp
  ultimately show ?thesis by (simp add: trunc_def ceiling_less_iff le_ceiling_iff)
qed

lemma concat_int16_bytes_length: "length (concat (map int16_bytes ws)) = 2 * length ws"
  by (induction ws) (simp_all add: int16_bytes_def)

lemma concat_int16_bytes_nth:
  "i < length ws \<Longrightarrow>
     concat (map int16_bytes ws) ! (2 * i) = ucast (ws ! i)
     \<and> concat (map int16_bytes ws) ! (2 * i + 1) = ucast (drop_bit 8 (ws ! i))"
proof (induction ws arbitrary: i)
  case Nil
  then show ?case by simp
next
  case (Cons w ws)
  show ?case
  proof (cases i)
    case 0
    then show ?thesis by (simp add: int16_bytes_def)
  next
    case (Suc j)
    then have "j < length ws" using Cons.prems by simp
    then show ?thesis using Cons.IH [of j] Suc by (simp add: int16_bytes_def)
  qed
qed

lemma unat_low_byte: "unat (ucast (w :: 16 word) :: 8 word) = unat w mod 256"
  by (simp add: unsigned_ucast_eq take_bit_eq_mod)

lemma unat_high_byte: "unat (ucast (drop_bit 8 (w :: 16 word)) :: 8 word) = unat w div 256"
proof -
  have "unat w < 65536" using unsigned_less [of w, where 'a=nat] by simp
  then have small: "unat w div 256 < 256" by simp
  have "unat (drop_bit 8 w) = drop_bit 8 (unat w)" by (rule unat_drop_bit_eq)
  also have "\<dots> = unat w div 2 ^ 8" by (rule drop_bit_eq_div)
  also have "\<dots> = unat w div 256" by simp
  finally have d: "unat (drop_bit 8 w) = unat w div 256" .
  have "unat (ucast (drop_bit 8 w) :: 8 word) = unat (drop_bit 8 w) mod 256"
    by (rule unat_low_byte)
  also have "\<dots> = unat w div 256" using small by (simp only: d mod_less)
  finally show ?thesis .
qed

lemma bytes_value:
  "int (unat (ucast (w :: 16 word) :: 8 word)) + 256 * int (unat (ucast (drop_bit 8 w) :: 8 word))
     = uint w"
proof -
  have lo: "unat (ucast w :: 8 word) = unat w mod 256" by (rule unat_low_byte)
  have hi: "unat (ucast (drop_bit 8 w) :: 8 word) = unat w div 256" by (rule unat_high_byte)
  have "unat (ucast w :: 8 word) + 256 * unat (ucast (drop_bit 8 w) :: 8 word)
      = unat w mod 256 + 256 * (unat w div 256)"
    by (rule arg_cong2 [where f = "\<lambda>a b. a + 256 * b", OF lo hi])
  also have "\<dots> = unat w" by presburger
  finally have "int (unat (ucast w :: 8 word) + 256 * unat (ucast (drop_bit 8 w) :: 8 word))
      = int (unat w)" by (rule arg_cong)
  then show ?thesis by (simp only: of_nat_add of_nat_mult of_nat_numeral of_nat_unat)
qed

lemma uint_word_of_int16: "uint (word_of_int k :: 16 word) = k mod 65536"
  by (simp add: uint_word_of_int take_bit_eq_mod)


lemma trunc_times:
  "trunc (r * 32768) = (if 0 \<le> r then \<lfloor>r * 32768\<rfloor> else \<lceil>r * 32768\<rceil>)"
  by (simp add: trunc_def zero_le_mult_iff)

text \<open>
  Claim C10. \<^verbatim>\<open>createBlob\<close> never throws; it stores one 16-bit value per sample and
  returns the base64 text of their bytes with the PCM mime type: two bytes per sample,
  low byte first. For a finite sample \<open>s\<close> the two bytes are the number
  \<open>t mod 2^16\<close>, where \<open>t\<close> is \<open>s * 32768\<close> rounded towards zero (the floor for
  \<open>s \<ge> 0\<close>, the ceiling for \<open>s < 0\<close>); read as a signed 16-bit integer that is \<open>t\<close>
  wrapped into the signed range, with no clamping: the full-scale sample \<open>1\<close> becomes
  \<open>-32768\<close>, and every \<open>s\<close> with \<open>-1 \<le> s < 1\<close> becomes \<open>t\<close> itself. (NaN and the
  infinities, which have no truncation, are stored as 0.)
\<close>

theorem createBlob_int16_wraps:
  "(\<exists>d bytes. createBlob samples = Inr \<lparr>data = d, mimeType = ''audio/pcm;rate=16000''\<rparr>
       \<and> decode d = Inr bytes
       \<and> bytes = concat (map int16_bytes (createBlob_int16 samples))
       \<and> length bytes = 2 * length samples
       \<and> (\<forall>j r. j < length samples \<and> samples ! j = Finite r \<longrightarrow>
              int (unat (bytes ! (2 * j))) + 256 * int (unat (bytes ! (2 * j + 1)))
                = (if 0 \<le> r then \<lfloor>r * 32768\<rfloor> else \<lceil>r * 32768\<rceil>) mod 65536)
       \<and> (\<forall>j. j < length samples \<and> samples ! j \<in> {NaN, PosInfinity, NegInfinity} \<longrightarrow>
              bytes ! (2 * j) = 0 \<and> bytes ! (2 * j + 1) = 0))
   \<and> length (createBlob_int16 samples) = length samples
   \<and> (i < length samples \<and> samples ! i = Finite s \<longrightarrow>
        trunc (s * 32768) = (if 0 \<le> s then \<lfloor>s * 32768\<rfloor> else \<lceil>s * 32768\<rceil>)
        \<and> sint (createBlob_int16 samples ! i) = (trunc (s * 32768) + 32768) mod 65536 - 32768
        \<and> (s = 1 \<longrightarrow> sint (createBlob_int16 samples ! i) = - 32768)
        \<and> (- 1 \<le> s \<and> s < 1 \<longrightarrow> sint (createBlob_int16 samples ! i) = trunc (s * 32768)))
   \<and> (i < length samples \<and> samples ! i \<in> {NaN, PosInfinity, NegInfinity} \<longrightarrow>
        createBlob_int16 samples ! i = 0)"
proof -
  let ?ws = "createBlob_int16 samples"
  let ?bytes = "concat (map int16_bytes ?ws)"
  have len: "length ?ws = length samples" by (simp add: createBlob_int16_def)
  obtain d where d: "encode ?bytes = Inr d" "decode d = Inr ?bytes"
    using encode_then_decode [of ?bytes] by blast
  have blob: "createBlob samples = Inr \<lparr>data = d, mimeType = ''audio/pcm;rate=16000''\<rparr>"
    using d(1) by (simp add: createBlob_def)
  have blen: "length ?bytes = 2 * length samples"
    by (simp only: concat_int16_bytes_length len)
  have fin_bytes: "int (unat (?bytes ! (2 * j))) + 256 * int (unat (?bytes ! (2 * j + 1)))
                = (if 0 \<le> r then \<lfloor>r * 32768\<rfloor> else \<lceil>r * 32768\<rceil>) mod 65536"
    if h: "j < length samples" "samples ! j = Finite r" for j r
  proof -
    have j: "j < length ?ws" using h(1) len by simp
    have w: "?ws ! j = word_of_int (trunc (r * 32768))"
      using h by (simp add: createBlob_int16_def)
    have "int (unat (?bytes ! (2 * j))) + 256 * int (unat (?bytes ! (2 * j + 1))) = uint (?ws ! j)"
      using concat_int16_bytes_nth [OF j] by (simp only: bytes_value)
    also have "\<dots> = trunc (r * 32768) mod 65536" unfolding w by (rule uint_word_of_int16)
    finally show ?thesis by (simp only: trunc_times)
  qed
  have nonfin_bytes: "?bytes ! (2 * j) = 0 \<and> ?bytes ! (2 * j + 1) = 0"
    if h: "j < length samples" "samples ! j \<in> {NaN, PosInfinity, NegInfinity}" for j
  proof -
    have j: "j < length ?ws" using h(1) len by simp
    have w: "?ws ! j = 0" using h by (auto simp: createBlob_int16_def)
    show ?thesis using concat_int16_bytes_nth [OF j] unfolding w by simp
  qed
  have fin: "trunc (s * 32768) = (if 0 \<le> s then \<lfloor>s * 32768\<rfloor> else \<lceil>s * 32768\<rceil>)
        \<and> sint (createBlob_int16 samples ! i) = (trunc (s * 32768) + 32768) mod 65536 - 32768
        \<and> (s = 1 \<longrightarrow> sint (createBlob_int16 samples ! i) = - 32768)
        \<and> (- 1 \<le> s \<and> s < 1 \<longrightarrow> sint (createBlob_int16 samples ! i) = trunc (s * 32768))"
    if h: "i < length samples" "samples ! i = Finite s"
  proof -
    have v: "createBlob_int16 samples ! i = word_of_int (trunc (s * 32768))"
      using h by (simp add: createBlob_int16_def)
    have a: "sint (createBlob_int16 samples ! i) = (trunc (s * 32768) + 32768) mod 65536 - 32768"
      unfolding v by (rule sint_word_of_int16)
    have b: "s = 1 \<longrightarrow> sint (createBlob_int16 samples ! i) = - 32768"
      unfolding a by (simp add: trunc_def)
    have c: "- 1 \<le> s \<and> s < 1 \<longrightarrow> sint (createBlob_int16 samples ! i) = trunc (s * 32768)"
    proof
      assume "- 1 \<le> s \<and> s < 1"
      then have "- 32768 \<le> trunc (s * 32768) \<and> trunc (s * 32768) < 32768"
        using trunc_range by blast
      then show "sint (createBlob_int16 samples ! i) = trunc (s * 32768)"
        unfolding a by (simp add: mod_pos_pos_trivial)
    qed
    have t: "trunc (s * 32768) = (if 0 \<le> s then \<lfloor>s * 32768\<rfloor> else \<lceil>s * 32768\<rceil>)"
      by (rule trunc_times)
    show ?thesis using a b c t by blast
  qed
  have nonfin: "createBlob_int16 samples ! i = 0"
    if "i < length samples" "samples ! i \<in> {NaN, PosInfinity, NegInfinity}"
    using that by (auto simp: createBlob_int16_def)
  have first: "\<exists>d bytes. createBlob samples = Inr \<lparr>data = d, mimeType = ''audio/pcm;rate=16000''\<rparr>
       \<and> decode d = Inr bytes
       \<and> bytes = concat (map int16_bytes (createBlob_int16 samples))
       \<and> length bytes = 2 * length samples
       \<and> (\<forall>j r. j < length samples \<and> samples ! j = Finite r \<longrightarrow>
              int (unat (bytes ! (2 * j))) + 256 * int (unat (bytes ! (2 * j + 1)))
                = (if 0 \<le> r then \<lfloor>r * 32768\<rfloor> else \<lceil>r * 32768\<rceil>) mod 65536)
       \<and> (\<forall>j. j < length samples \<and> samples ! j \<in> {NaN, PosInfinity, NegInfinity} \<longrightarrow>
              bytes ! (2 * j) = 0 \<and> bytes ! (2 * j + 1) = 0)"
    using blob d(2) blen fin_bytes nonfin_bytes by blast
  show ?thesis using first len fin nonfin by blast
qed

lemma createBlob_example:
  "createBlob [Finite 1, Finite (- 1 / 65536), Finite (3 / 65536)]
     = Inr \<lparr>data = ''AIAAAAEA'', mimeType = ''audio/pcm;rate=16000''\<rparr>"
  by code_simp

lemma createBlob_int16_example:
  "map sint (createBlob_int16 [Finite 1, Finite (- 1 / 65536), Finite (3 / 65536)]) = [- 32768, 0, 1]"
  by code_simp

text \<open>
  The theorem at three samples: full scale, and two whose products with 32768 are not
  integers (\<open>-1/2\<close> and \<open>3/2\<close>, truncated to 0 and 1).
\<close>

theorem createBlob_int16_wraps_witness:
  "createBlob [Finite 1, Finite (- 1 / 65536), Finite (3 / 65536)]
     = Inr \<lparr>data = ''AIAAAAEA'', mimeType = ''audio/pcm;rate=16000''\<rparr>
   \<and> decode ''AIAAAAEA'' = Inr [0, 128, 0, 0, 1, 0]
   \<and> map sint (createBlob_int16 [Finite 1, Finite (- 1 / 65536), Finite (3 / 65536)])
       = [- 32768, 0, 1]"
proof -
  have d: "decode ''AIAAAAEA'' = Inr [0, 128, 0, 0, 1, 0]" by code_simp
  show ?thesis
    using createBlob_int16_wraps [of "[Finite 1, Finite (- 1 / 65536), Finite (3 / 65536)]" 1
        "- 1 / 65536"] createBlob_example createBlob_int16_example d
    by simp
qed

section \<open>Properties of the realtime session\<close>

subsection \<open>Evaluation at a one-frame chunk\<close>

lemma decode_AAA: "decode ''AAA='' = Inr [0, 0]"
  by code_simp

lemma decodeAudioData_00:
  "decodeAudioData [0, 0] 24000 = Inr \<lparr>channelData = [0], duration = 1 / 24000\<rparr>"
  by (simp add: decodeAudioData_def Let_def)

lemmas live_simps = live_run_def onmessage_def onmessage_begin_def resume_chunk_def
  onmessage_transcripts_def onmessage_audio_begin_def onmessage_audio_resume_def Let_def
  log_calls_def onopen_def onended_def startSession_resume_def startSession_begin_def
  startSession_catch_def stopSession_begin_def resume_stop_def stopSession_cleanup_def
  render_live_def initial_live_def decode_AAA decodeAudioData_00

subsection \<open>The playback watermark\<close>

lemma scheduled_append: "scheduled (xs @ ys) = scheduled xs @ scheduled ys"
  by (induction xs rule: scheduled.induct) simp_all

lemma duration_nonneg: "decodeAudioData bytes rate = Inr buffer \<Longrightarrow> 0 \<le> duration buffer"
  by (auto simp: decodeAudioData_def Let_def split: if_splits)

lemma transcripts_frame:
  "nextStartTimeRef (onmessage_transcripts msg st) = nextStartTimeRef st
   \<and> outputContext (onmessage_transcripts msg st) = outputContext st
   \<and> audioSourcesRef (onmessage_transcripts msg st) = audioSourcesRef st
   \<and> sourcesCreated (onmessage_transcripts msg st) = sourcesCreated st
   \<and> scheduled (calls (onmessage_transcripts msg st)) = scheduled (calls st)"
  by (simp add: onmessage_transcripts_def Let_def log_calls_def scheduled_append
      split: option.splits)

lemma begin_accepted:
  assumes "audioData msg = Some a" "a \<noteq> []" "outputContext st"
    "decode a = Inr bytes" "decodeAudioData bytes 24000 = Inr buffer"
  shows "onmessage_audio_begin now msg st
           = (if audioSourcesRef st = [] then log_calls [OnAiSpeakingStatusChange True] st else st,
              Some (max (nextStartTimeRef st) now, buffer))"
  using assms by (simp add: onmessage_audio_begin_def Let_def log_calls_def)

lemma begin_frame:
  "nextStartTimeRef (fst (onmessage_audio_begin now msg st)) = nextStartTimeRef st
   \<and> scheduled (calls (fst (onmessage_audio_begin now msg st))) = scheduled (calls st)
   \<and> (\<forall>s b. snd (onmessage_audio_begin now msg st) = Some (s, b) \<longrightarrow>
         s = max (nextStartTimeRef st) now \<and> 0 \<le> duration b)"
  by (auto simp: onmessage_audio_begin_def Let_def log_calls_def scheduled_append
      duration_nonneg split: option.splits sum.splits)

lemma resume_effect:
  "scheduled (calls (onmessage_audio_resume (start, buffer) st))
     = scheduled (calls st) @ [(start, start + duration buffer)]
   \<and> nextStartTimeRef (onmessage_audio_resume (start, buffer) st) = start + duration buffer"
  by (simp add: onmessage_audio_resume_def log_calls_def scheduled_append)

lemma onmessage_cases:
  "(scheduled (calls (onmessage now msg st)) = scheduled (calls st)
      \<and> nextStartTimeRef (onmessage now msg st) = nextStartTimeRef st)
   \<or> (\<exists>t e. scheduled (calls (onmessage now msg st)) = scheduled (calls st) @ [(t, e)]
         \<and> nextStartTimeRef st \<le> t \<and> t \<le> e
         \<and> nextStartTimeRef (onmessage now msg st) = e)"
proof -
  let ?st0 = "onmessage_transcripts msg st"
  obtain st1 r where b: "onmessage_audio_begin now msg ?st0 = (st1, r)" by (cases "onmessage_audio_begin now msg ?st0")
  have f: "nextStartTimeRef st1 = nextStartTimeRef st" "scheduled (calls st1) = scheduled (calls st)"
    using begin_frame [of now msg ?st0] transcripts_frame [of msg st] b by simp_all
  show ?thesis
  proof (cases r)
    case None
    then show ?thesis using b f by (simp add: onmessage_def)
  next
    case (Some c)
    obtain s bf where c: "c = (s, bf)" by (cases c)
    have sb: "s = max (nextStartTimeRef st) now" "0 \<le> duration bf"
      using begin_frame [of now msg ?st0] transcripts_frame [of msg st] b Some c by simp_all
    have o: "onmessage now msg st = onmessage_audio_resume (s, bf) st1"
      using b Some c by (simp add: onmessage_def)
    have "scheduled (calls (onmessage now msg st)) = scheduled (calls st) @ [(s, s + duration bf)]"
      "nextStartTimeRef (onmessage now msg st) = s + duration bf"
      unfolding o using resume_effect [of s bf st1] f by simp_all
    moreover have "nextStartTimeRef st \<le> s" "s \<le> s + duration bf" using sb by simp_all
    ultimately show ?thesis by blast
  qed
qed

lemma uninterrupted_step_cases:
  assumes "uninterrupted ev"
  shows "(scheduled (calls (live_step ev st)) = scheduled (calls st)
      \<and> nextStartTimeRef (live_step ev st) = nextStartTimeRef st)
   \<or> (\<exists>t e. scheduled (calls (live_step ev st)) = scheduled (calls st) @ [(t, e)]
         \<and> nextStartTimeRef st \<le> t \<and> t \<le> e
         \<and> nextStartTimeRef (live_step ev st) = e)"
proof (cases ev)
  case (Message now msg)
  show ?thesis using onmessage_cases [of now msg st] unfolding Message by simp
next
  case (Ended i)
  then show ?thesis by (simp add: onended_def Let_def log_calls_def scheduled_append)
qed (use assms in simp_all)

lemma uninterrupted_run_mono:
  "list_all uninterrupted evs \<Longrightarrow> nextStartTimeRef st \<le> nextStartTimeRef (live_run evs st)"
proof (induction evs arbitrary: st)
  case Nil
  show ?case by (simp add: live_run_def)
next
  case (Cons ev evs)
  have u: "uninterrupted ev" "list_all uninterrupted evs" using Cons.prems by simp_all
  have "nextStartTimeRef (live_step ev st)
          \<le> nextStartTimeRef (live_run evs (live_step ev st))" using u(2) by (rule Cons.IH)
  moreover have "nextStartTimeRef st \<le> nextStartTimeRef (live_step ev st)"
    using uninterrupted_step_cases [OF u(1), of st] by auto
  ultimately show ?case by (simp add: live_run_def)
qed

lemma uninterrupted_run_chained:
  "list_all uninterrupted evs \<Longrightarrow>
   \<exists>ivs. scheduled (calls (live_run evs st)) = scheduled (calls st) @ ivs
         \<and> chained (nextStartTimeRef st) ivs"
proof (induction evs arbitrary: st)
  case Nil
  show ?case by (simp add: live_run_def)
next
  case (Cons ev evs)
  have u: "uninterrupted ev" "list_all uninterrupted evs" using Cons.prems by simp_all
  let ?st1 = "live_step ev st"
  obtain ivs1 where ih: "scheduled (calls (live_run evs ?st1)) = scheduled (calls ?st1) @ ivs1"
    "chained (nextStartTimeRef ?st1) ivs1" using Cons.IH [OF u(2), of ?st1] by blast
  have run: "live_run (ev # evs) st = live_run evs ?st1" by (simp add: live_run_def)
  from uninterrupted_step_cases [OF u(1), of st] show ?case
  proof
    assume "scheduled (calls ?st1) = scheduled (calls st)
      \<and> nextStartTimeRef ?st1 = nextStartTimeRef st"
    then show ?thesis using ih run by auto
  next
    assume "\<exists>t e. scheduled (calls ?st1) = scheduled (calls st) @ [(t, e)]
         \<and> nextStartTimeRef st \<le> t \<and> t \<le> e \<and> nextStartTimeRef ?st1 = e"
    then obtain t e where s: "scheduled (calls ?st1) = scheduled (calls st) @ [(t, e)]"
      "nextStartTimeRef st \<le> t" "t \<le> e" "nextStartTimeRef ?st1 = e" by blast
    have "scheduled (calls (live_run (ev # evs) st)) = scheduled (calls st) @ ((t, e) # ivs1)"
      using ih(1) s(1) run by simp
    moreover have "chained (nextStartTimeRef st) ((t, e) # ivs1)" using ih(2) s by simp
    ultimately show ?thesis by blast
  qed
qed

lemma onmessage_accepted:
  assumes h: "audioData msg = Some a" "a \<noteq> []" "outputContext st"
      "decode a = Inr bytes" "decodeAudioData bytes 24000 = Inr buffer"
  shows "scheduled (calls (onmessage now msg st))
          = scheduled (calls st)
            @ [(max (nextStartTimeRef st) now, max (nextStartTimeRef st) now + duration buffer)]"
    and "nextStartTimeRef (onmessage now msg st)
          = max (nextStartTimeRef st) now + duration buffer"
proof -
  let ?st0 = "onmessage_transcripts msg st"
  let ?st1 = "if audioSourcesRef ?st0 = [] then log_calls [OnAiSpeakingStatusChange True] ?st0 else ?st0"
  have o: "outputContext ?st0" using h(3) transcripts_frame by simp
  have b0: "onmessage_audio_begin now msg ?st0 = (?st1, Some (max (nextStartTimeRef ?st0) now, buffer))"
    using h(1) h(2) o h(4) h(5) by (rule begin_accepted)
  have f: "nextStartTimeRef ?st0 = nextStartTimeRef st" "scheduled (calls ?st0) = scheduled (calls st)"
    using transcripts_frame [of msg st] by simp_all
  have g: "scheduled (calls ?st1) = scheduled (calls st)"
    using f(2) by (simp add: log_calls_def scheduled_append)
  have om: "onmessage now msg st = onmessage_audio_resume (max (nextStartTimeRef st) now, buffer) ?st1"
    unfolding onmessage_def b0 f(1) by simp
  show "scheduled (calls (onmessage now msg st))
          = scheduled (calls st)
            @ [(max (nextStartTimeRef st) now, max (nextStartTimeRef st) now + duration buffer)]"
    unfolding om using resume_effect [of "max (nextStartTimeRef st) now" buffer ?st1] g by simp
  show "nextStartTimeRef (onmessage now msg st)
          = max (nextStartTimeRef st) now + duration buffer"
    unfolding om using resume_effect [of "max (nextStartTimeRef st) now" buffer ?st1] by simp
qed

text \<open>
  Claim C2, as the code has it. For a chunk whose audio decodes, arriving when the output
  clock shows \<open>now\<close>, the handler computes the start time before its await, as the maximum
  of the watermark and \<open>now\<close>, and leaves the watermark as it is; when it goes on after
  the await, in whatever state, it starts the source at that start time and sets the
  watermark to that start time plus the buffer's duration. A handler that goes on before
  anything else runs therefore schedules the interval from the maximum of the watermark
  and \<open>now\<close>: exactly at the watermark when the chunk arrives before it, and at \<open>now\<close>,
  after a silence, when it arrives later. Over every sequence of such handlers and ended
  sources the watermark never decreases, and the intervals scheduled during the sequence
  are chained: each starts no earlier than the end of the one before, the first no
  earlier than the watermark at the start.
\<close>

theorem playback_watermark:
  "(audioData msg = Some a \<and> a \<noteq> [] \<and> outputContext st
      \<and> decode a = Inr bytes \<and> decodeAudioData bytes 24000 = Inr buffer \<longrightarrow>
      snd (onmessage_audio_begin now msg st) = Some (max (nextStartTimeRef st) now, buffer)
      \<and> nextStartTimeRef (fst (onmessage_audio_begin now msg st)) = nextStartTimeRef st
      \<and> scheduled (calls (fst (onmessage_audio_begin now msg st))) = scheduled (calls st)
      \<and> scheduled (calls (onmessage now msg st))
          = scheduled (calls st)
            @ [(max (nextStartTimeRef st) now, max (nextStartTimeRef st) now + duration buffer)]
      \<and> nextStartTimeRef (onmessage now msg st)
          = max (nextStartTimeRef st) now + duration buffer)
   \<and> scheduled (calls (onmessage_audio_resume (start, buffer') st'))
       = scheduled (calls st') @ [(start, start + duration buffer')]
   \<and> nextStartTimeRef (onmessage_audio_resume (start, buffer') st') = start + duration buffer'
   \<and> (list_all uninterrupted evs \<longrightarrow>
        nextStartTimeRef st \<le> nextStartTimeRef (live_run evs st)
        \<and> (\<exists>ivs. scheduled (calls (live_run evs st)) = scheduled (calls st) @ ivs
              \<and> chained (nextStartTimeRef st) ivs))"
proof (intro conjI impI)
  assume "audioData msg = Some a \<and> a \<noteq> [] \<and> outputContext st
      \<and> decode a = Inr bytes \<and> decodeAudioData bytes 24000 = Inr buffer"
  then have h: "audioData msg = Some a" "a \<noteq> []" "outputContext st"
      "decode a = Inr bytes" "decodeAudioData bytes 24000 = Inr buffer" by simp_all
  show "snd (onmessage_audio_begin now msg st) = Some (max (nextStartTimeRef st) now, buffer)"
    unfolding begin_accepted [OF h] by simp
  show "nextStartTimeRef (fst (onmessage_audio_begin now msg st)) = nextStartTimeRef st"
    using begin_frame [of now msg st] by simp
  show "scheduled (calls (fst (onmessage_audio_begin now msg st))) = scheduled (calls st)"
    using begin_frame [of now msg st] by simp
  show "scheduled (calls (onmessage now msg st))
          = scheduled (calls st)
            @ [(max (nextStartTimeRef st) now, max (nextStartTimeRef st) now + duration buffer)]"
    using h by (rule onmessage_accepted)
  show "nextStartTimeRef (onmessage now msg st)
          = max (nextStartTimeRef st) now + duration buffer"
    using h by (rule onmessage_accepted)
next
  show "scheduled (calls (onmessage_audio_resume (start, buffer') st'))
       = scheduled (calls st') @ [(start, start + duration buffer')]"
    using resume_effect [of start buffer' st'] by simp
  show "nextStartTimeRef (onmessage_audio_resume (start, buffer') st') = start + duration buffer'"
    using resume_effect [of start buffer' st'] by simp
next
  assume u: "list_all uninterrupted evs"
  show "nextStartTimeRef st \<le> nextStartTimeRef (live_run evs st)"
    using u by (rule uninterrupted_run_mono)
  show "\<exists>ivs. scheduled (calls (live_run evs st)) = scheduled (calls st) @ ivs
              \<and> chained (nextStartTimeRef st) ivs"
    using u by (rule uninterrupted_run_chained)
qed

text \<open>
  The theorem at a session that has just opened: one chunk of one frame, and a sequence
  of two chunks of which the second arrives while the first buffer plays.
\<close>

theorem playback_watermark_witness:
  "snd (onmessage_audio_begin 0
       \<lparr>inputTranscription = None, outputTranscription = None, turnComplete = False,
        audioData = Some ''AAA=''\<rparr>
       (live_run [StartBegin, StartResume (Some [0]) (Some Fulfills), Open] initial_live))
     = Some (0, \<lparr>channelData = [0], duration = 1 / 24000\<rparr>)
   \<and> scheduled (calls (onmessage_audio_resume (0, \<lparr>channelData = [0], duration = 1 / 24000\<rparr>)
        (live_run [StartBegin, StartResume (Some [0]) (Some Fulfills), Open] initial_live)))
     = [(0, 1 / 24000)]
   \<and> list_all uninterrupted
        [Message 0 \<lparr>inputTranscription = None, outputTranscription = None,
                    turnComplete = False, audioData = Some ''AAA=''\<rparr>,
         Ended 0,
         Message (1 / 48000) \<lparr>inputTranscription = None, outputTranscription = None,
                    turnComplete = False, audioData = Some ''AAA=''\<rparr>]
   \<and> scheduled (calls (live_run
        [Message 0 \<lparr>inputTranscription = None, outputTranscription = None,
                    turnComplete = False, audioData = Some ''AAA=''\<rparr>,
         Ended 0,
         Message (1 / 48000) \<lparr>inputTranscription = None, outputTranscription = None,
                    turnComplete = False, audioData = Some ''AAA=''\<rparr>]
        (live_run [StartBegin, StartResume (Some [0]) (Some Fulfills), Open] initial_live)))
     = [(0, 1 / 24000), (1 / 24000, 2 / 24000)]
   \<and> nextStartTimeRef (live_run
        [Message 0 \<lparr>inputTranscription = None, outputTranscription = None,
                    turnComplete = False, audioData = Some ''AAA=''\<rparr>,
         Ended 0,
         Message (1 / 48000) \<lparr>inputTranscription = None, outputTranscription = None,
                    turnComplete = False, audioData = Some ''AAA=''\<rparr>]
        (live_run [StartBegin, StartResume (Some [0]) (Some Fulfills), Open] initial_live))
     = 2 / 24000"
  using playback_watermark [where msg = "\<lparr>inputTranscription = None,
      outputTranscription = None, turnComplete = False, audioData = Some ''AAA=''\<rparr>"
      and a = "''AAA=''"
      and st = "live_run [StartBegin, StartResume (Some [0]) (Some Fulfills), Open] initial_live"
      and bytes = "[0, 0]" and buffer = "\<lparr>channelData = [0], duration = 1 / 24000\<rparr>"
      and now = 0 and start = 0 and buffer' = "\<lparr>channelData = [0], duration = 1 / 24000\<rparr>"
      and st' = "live_run [StartBegin, StartResume (Some [0]) (Some Fulfills), Open] initial_live"
      and evs = "[Message 0 \<lparr>inputTranscription = None, outputTranscription = None,
                    turnComplete = False, audioData = Some ''AAA=''\<rparr>,
         Ended 0,
         Message (1 / 48000) \<lparr>inputTranscription = None, outputTranscription = None,
                    turnComplete = False, audioData = Some ''AAA=''\<rparr>]"]
  by (simp add: live_simps)

text \<open>
  Claim C2 as stated fails in "nor leave gaps". Two chunks of one frame each arrive, the
  first when the clock shows 0, the second when it shows 1: the first buffer plays from
  0 to 1/24000, the second is started at 1.
\<close>

theorem playback_gap:
  "scheduled (calls (live_run
       [Message 0 \<lparr>inputTranscription = None, outputTranscription = None,
                   turnComplete = False, audioData = Some ''AAA=''\<rparr>,
        Message 1 \<lparr>inputTranscription = None, outputTranscription = None,
                   turnComplete = False, audioData = Some ''AAA=''\<rparr>]
       (live_run [StartBegin, StartResume (Some [0]) (Some Fulfills), Open] initial_live)))
   = [(0, 1 / 24000), (1, 24001 / 24000)]"
  by (simp add: live_simps)

text \<open>
  Two handlers that both begin before the first goes on read the same watermark: both
  sources are started at 0.
\<close>

theorem playback_overlap:
  "scheduled (calls (live_run
       [MessageBegin 0 \<lparr>inputTranscription = None, outputTranscription = None,
                        turnComplete = False, audioData = Some ''AAA=''\<rparr>,
        MessageBegin 0 \<lparr>inputTranscription = None, outputTranscription = None,
                        turnComplete = False, audioData = Some ''AAA=''\<rparr>,
        MessageResume 0, MessageResume 0]
       (live_run [StartBegin, StartResume (Some [0]) (Some Fulfills), Open] initial_live)))
   = [(0, 1 / 24000), (0, 1 / 24000)]"
  by (simp add: live_simps)

subsection \<open>Stopping the session\<close>

lemma cleanup_state:
  "streamRef (stopSession_cleanup st) = None
   \<and> \<not> sourceNode (stopSession_cleanup st) \<and> \<not> processorNode (stopSession_cleanup st)
   \<and> \<not> inputContext (stopSession_cleanup st) \<and> \<not> outputContext (stopSession_cleanup st)
   \<and> audioSourcesRef (stopSession_cleanup st) = []
   \<and> nextStartTimeRef (stopSession_cleanup st) = 0
   \<and> \<not> isLive (stopSession_cleanup st)
   \<and> sessionPromiseRef (stopSession_cleanup st) = sessionPromiseRef st"
  by (simp add: stopSession_cleanup_def)

lemma cleanup_calls:
  "\<exists>cs. calls (stopSession_cleanup st) = calls st @ cs
     \<and> (\<forall>tracks. streamRef st = Some tracks \<longrightarrow> (\<forall>t \<in> set tracks. TrackStop t \<in> set cs))
     \<and> (sourceNode st \<longrightarrow> DisconnectSource \<in> set cs)
     \<and> (processorNode st \<longrightarrow> DisconnectProcessor \<in> set cs)
     \<and> (inputContext st \<longrightarrow> CloseInputContext \<in> set cs)
     \<and> (outputContext st \<longrightarrow> CloseOutputContext \<in> set cs)
     \<and> (\<forall>i \<in> set (audioSourcesRef st). SourceStop i \<in> set cs)
     \<and> OnInterimTranscript '''' \<in> set cs"
  by (auto simp: stopSession_cleanup_def split: option.splits)

lemma resume_releases:
  assumes "p \<noteq> NeverSettles"
  shows "\<exists>st'. stopSession_resume p st = Some st'
     \<and> sessionPromiseRef st' = None \<and> streamRef st' = None
     \<and> \<not> sourceNode st' \<and> \<not> processorNode st'
     \<and> \<not> inputContext st' \<and> \<not> outputContext st'
     \<and> audioSourcesRef st' = [] \<and> nextStartTimeRef st' = 0 \<and> \<not> isLive st'
     \<and> (\<exists>cs. calls st' = calls st @ cs
          \<and> (p = Fulfills \<longrightarrow> SessionClose \<in> set cs)
          \<and> (\<forall>tracks. streamRef st = Some tracks \<longrightarrow> (\<forall>t \<in> set tracks. TrackStop t \<in> set cs))
          \<and> (sourceNode st \<longrightarrow> DisconnectSource \<in> set cs)
          \<and> (processorNode st \<longrightarrow> DisconnectProcessor \<in> set cs)
          \<and> (inputContext st \<longrightarrow> CloseInputContext \<in> set cs)
          \<and> (outputContext st \<longrightarrow> CloseOutputContext \<in> set cs)
          \<and> (\<forall>i \<in> set (audioSourcesRef st). SourceStop i \<in> set cs)
          \<and> OnInterimTranscript '''' \<in> set cs)"
proof (cases p)
  case Fulfills
  let ?st1 = "(log_calls [SessionClose] st)\<lparr>sessionPromiseRef := None\<rparr>"
  have s: "stopSession_resume p st = Some (stopSession_cleanup ?st1)"
    using Fulfills by simp
  obtain cs where cs: "calls (stopSession_cleanup ?st1) = calls ?st1 @ cs"
    "\<forall>tracks. streamRef ?st1 = Some tracks \<longrightarrow> (\<forall>t \<in> set tracks. TrackStop t \<in> set cs)"
    "sourceNode ?st1 \<longrightarrow> DisconnectSource \<in> set cs"
    "processorNode ?st1 \<longrightarrow> DisconnectProcessor \<in> set cs"
    "inputContext ?st1 \<longrightarrow> CloseInputContext \<in> set cs"
    "outputContext ?st1 \<longrightarrow> CloseOutputContext \<in> set cs"
    "\<forall>i \<in> set (audioSourcesRef ?st1). SourceStop i \<in> set cs"
    "OnInterimTranscript '''' \<in> set cs"
    using cleanup_calls [of ?st1] by blast
  have c: "calls (stopSession_cleanup ?st1) = calls st @ (SessionClose # cs)"
    using cs(1) by (simp add: log_calls_def)
  have "\<exists>cs'. calls (stopSession_cleanup ?st1) = calls st @ cs'
        \<and> (p = Fulfills \<longrightarrow> SessionClose \<in> set cs')
        \<and> (\<forall>tracks. streamRef st = Some tracks \<longrightarrow> (\<forall>t \<in> set tracks. TrackStop t \<in> set cs'))
        \<and> (sourceNode st \<longrightarrow> DisconnectSource \<in> set cs')
        \<and> (processorNode st \<longrightarrow> DisconnectProcessor \<in> set cs')
        \<and> (inputContext st \<longrightarrow> CloseInputContext \<in> set cs')
        \<and> (outputContext st \<longrightarrow> CloseOutputContext \<in> set cs')
        \<and> (\<forall>i \<in> set (audioSourcesRef st). SourceStop i \<in> set cs')
        \<and> OnInterimTranscript '''' \<in> set cs'"
    apply (rule exI [of _ "SessionClose # cs"])
    using c cs(2-8) by (simp add: log_calls_def)
  then show ?thesis
    unfolding s using cleanup_state [of ?st1] by (simp add: log_calls_def)
next
  case Rejects
  let ?st1 = "st\<lparr>sessionPromiseRef := None\<rparr>"
  have s: "stopSession_resume p st = Some (stopSession_cleanup ?st1)"
    using Rejects by simp
  show ?thesis
    unfolding s using cleanup_state [of ?st1] cleanup_calls [of ?st1] Rejects by simp
next
  case NeverSettles
  then show ?thesis using assms by simp
qed

lemma begin_releases:
  assumes "sessionPromiseRef st = None"
  shows "streamRef (stopSession_begin st) = None
     \<and> \<not> sourceNode (stopSession_begin st) \<and> \<not> processorNode (stopSession_begin st)
     \<and> \<not> inputContext (stopSession_begin st) \<and> \<not> outputContext (stopSession_begin st)
     \<and> audioSourcesRef (stopSession_begin st) = [] \<and> nextStartTimeRef (stopSession_begin st) = 0
     \<and> \<not> isLive (stopSession_begin st)
     \<and> (\<exists>cs. calls (stopSession_begin st) = calls st @ cs
          \<and> (\<forall>tracks. streamRef st = Some tracks \<longrightarrow> (\<forall>t \<in> set tracks. TrackStop t \<in> set cs))
          \<and> (sourceNode st \<longrightarrow> DisconnectSource \<in> set cs)
          \<and> (processorNode st \<longrightarrow> DisconnectProcessor \<in> set cs)
          \<and> (inputContext st \<longrightarrow> CloseInputContext \<in> set cs)
          \<and> (outputContext st \<longrightarrow> CloseOutputContext \<in> set cs)
          \<and> (\<forall>i \<in> set (audioSourcesRef st). SourceStop i \<in> set cs)
          \<and> OnInterimTranscript '''' \<in> set cs)"
proof -
  have s: "stopSession_begin st = stopSession_cleanup st"
    using assms by (simp add: stopSession_begin_def)
  show ?thesis unfolding s using cleanup_state [of st] cleanup_calls [of st] by simp
qed

lemma opened_state:
  "live_run [StartBegin, StartResume (Some [0]) (Some Fulfills), Open,
             Message 0 \<lparr>inputTranscription = None, outputTranscription = None,
                        turnComplete = False, audioData = Some ''AAA=''\<rparr>] initial_live
   = \<lparr>isLive = True, renderedIsLive = False, live_error = None,
      sessionPromiseRef = Some Fulfills, streamRef = Some [0], sourceNode = True,
      processorNode = True, inputContext = True, outputContext = True,
      nextStartTimeRef = 1 / 24000, audioSourcesRef = [0],
      currentInputTranscriptionRef = [], currentOutputTranscriptionRef = [],
      sourcesCreated = 1, pendingStarts = 0, pendingChunks = [], pendingStops = [],
      calls = [OnAiSpeakingStatusChange True, SourceStart 0 0 (1 / 24000)]\<rparr>"
  by (simp add: live_simps)

text \<open>
  Claim C7, as the code has it. A call of \<^verbatim>\<open>stopSession\<close> that finds no connection
  promise in the ref runs its cleanup at once. A call that finds one does nothing but
  wait for it; it goes on when the promise has settled, and never for a promise that
  does not settle. When the cleanup has run, at once or after the await, in whatever
  state the hook is then: the promise ref, the stream ref, both node refs and both
  context refs are \<^verbatim>\<open>null\<close>, the set of sources is empty, the watermark is 0 and the live
  flag is false; and among the calls made are \<^verbatim>\<open>close\<close> on the vendor session when the
  awaited promise fulfilled, \<^verbatim>\<open>stop\<close> on every track of the stream the ref held,
  \<^verbatim>\<open>disconnect\<close> on the source and the processor node the refs held, \<^verbatim>\<open>close\<close> on the
  contexts the refs held, \<^verbatim>\<open>stop\<close> on every source that was in the set, and
  \<^verbatim>\<open>onInterimTranscript('')\<close>.
\<close>

theorem stopSession_releases:
  "(sessionPromiseRef st0 = None \<longrightarrow>
      streamRef (stopSession_begin st0) = None
      \<and> \<not> sourceNode (stopSession_begin st0) \<and> \<not> processorNode (stopSession_begin st0)
      \<and> \<not> inputContext (stopSession_begin st0) \<and> \<not> outputContext (stopSession_begin st0)
      \<and> audioSourcesRef (stopSession_begin st0) = []
      \<and> nextStartTimeRef (stopSession_begin st0) = 0
      \<and> \<not> isLive (stopSession_begin st0)
      \<and> (\<exists>cs. calls (stopSession_begin st0) = calls st0 @ cs
           \<and> (\<forall>tracks. streamRef st0 = Some tracks \<longrightarrow> (\<forall>t \<in> set tracks. TrackStop t \<in> set cs))
           \<and> (sourceNode st0 \<longrightarrow> DisconnectSource \<in> set cs)
           \<and> (processorNode st0 \<longrightarrow> DisconnectProcessor \<in> set cs)
           \<and> (inputContext st0 \<longrightarrow> CloseInputContext \<in> set cs)
           \<and> (outputContext st0 \<longrightarrow> CloseOutputContext \<in> set cs)
           \<and> (\<forall>i \<in> set (audioSourcesRef st0). SourceStop i \<in> set cs)
           \<and> OnInterimTranscript '''' \<in> set cs))
   \<and> (sessionPromiseRef st1 = Some q \<longrightarrow>
        stopSession_begin st1 = st1\<lparr>pendingStops := pendingStops st1 @ [q]\<rparr>)
   \<and> stopSession_resume NeverSettles st = None
   \<and> (p \<noteq> NeverSettles \<longrightarrow>
        (\<exists>st'. stopSession_resume p st = Some st'
           \<and> sessionPromiseRef st' = None \<and> streamRef st' = None
           \<and> \<not> sourceNode st' \<and> \<not> processorNode st'
           \<and> \<not> inputContext st' \<and> \<not> outputContext st'
           \<and> audioSourcesRef st' = [] \<and> nextStartTimeRef st' = 0 \<and> \<not> isLive st'
           \<and> (\<exists>cs. calls st' = calls st @ cs
                \<and> (p = Fulfills \<longrightarrow> SessionClose \<in> set cs)
                \<and> (\<forall>tracks. streamRef st = Some tracks \<longrightarrow> (\<forall>t \<in> set tracks. TrackStop t \<in> set cs))
                \<and> (sourceNode st \<longrightarrow> DisconnectSource \<in> set cs)
                \<and> (processorNode st \<longrightarrow> DisconnectProcessor \<in> set cs)
                \<and> (inputContext st \<longrightarrow> CloseInputContext \<in> set cs)
                \<and> (outputContext st \<longrightarrow> CloseOutputContext \<in> set cs)
                \<and> (\<forall>i \<in> set (audioSourcesRef st). SourceStop i \<in> set cs)
                \<and> OnInterimTranscript '''' \<in> set cs)))"
proof (intro conjI)
  show "sessionPromiseRef st0 = None \<longrightarrow>
      streamRef (stopSession_begin st0) = None
      \<and> \<not> sourceNode (stopSession_begin st0) \<and> \<not> processorNode (stopSession_begin st0)
      \<and> \<not> inputContext (stopSession_begin st0) \<and> \<not> outputContext (stopSession_begin st0)
      \<and> audioSourcesRef (stopSession_begin st0) = []
      \<and> nextStartTimeRef (stopSession_begin st0) = 0
      \<and> \<not> isLive (stopSession_begin st0)
      \<and> (\<exists>cs. calls (stopSession_begin st0) = calls st0 @ cs
           \<and> (\<forall>tracks. streamRef st0 = Some tracks \<longrightarrow> (\<forall>t \<in> set tracks. TrackStop t \<in> set cs))
           \<and> (sourceNode st0 \<longrightarrow> DisconnectSource \<in> set cs)
           \<and> (processorNode st0 \<longrightarrow> DisconnectProcessor \<in> set cs)
           \<and> (inputContext st0 \<longrightarrow> CloseInputContext \<in> set cs)
           \<and> (outputContext st0 \<longrightarrow> CloseOutputContext \<in> set cs)
           \<and> (\<forall>i \<in> set (audioSourcesRef st0). SourceStop i \<in> set cs)
           \<and> OnInterimTranscript '''' \<in> set cs)"
    by (rule impI, rule begin_releases)
  show "sessionPromiseRef st1 = Some q \<longrightarrow>
        stopSession_begin st1 = st1\<lparr>pendingStops := pendingStops st1 @ [q]\<rparr>"
    by (simp add: stopSession_begin_def)
  show "stopSession_resume NeverSettles st = None" by simp
  show "p \<noteq> NeverSettles \<longrightarrow>
        (\<exists>st'. stopSession_resume p st = Some st'
           \<and> sessionPromiseRef st' = None \<and> streamRef st' = None
           \<and> \<not> sourceNode st' \<and> \<not> processorNode st'
           \<and> \<not> inputContext st' \<and> \<not> outputContext st'
           \<and> audioSourcesRef st' = [] \<and> nextStartTimeRef st' = 0 \<and> \<not> isLive st'
           \<and> (\<exists>cs. calls st' = calls st @ cs
                \<and> (p = Fulfills \<longrightarrow> SessionClose \<in> set cs)
                \<and> (\<forall>tracks. streamRef st = Some tracks \<longrightarrow> (\<forall>t \<in> set tracks. TrackStop t \<in> set cs))
                \<and> (sourceNode st \<longrightarrow> DisconnectSource \<in> set cs)
                \<and> (processorNode st \<longrightarrow> DisconnectProcessor \<in> set cs)
                \<and> (inputContext st \<longrightarrow> CloseInputContext \<in> set cs)
                \<and> (outputContext st \<longrightarrow> CloseOutputContext \<in> set cs)
                \<and> (\<forall>i \<in> set (audioSourcesRef st). SourceStop i \<in> set cs)
                \<and> OnInterimTranscript '''' \<in> set cs))"
    by (rule impI, rule resume_releases)
qed

text \<open>
  The theorem at two calls: the one from the \<^verbatim>\<open>catch\<close> block of a \<^verbatim>\<open>startSession\<close> that
  acquired the microphone and then failed to create the client, which has no promise to
  wait for; and one on a session that opened and scheduled one buffer, whose calls
  follow the two calls of the chunk.
\<close>

theorem stopSession_releases_witness:
  "sessionPromiseRef ((log_calls [ConsoleError]
        ((startSession_begin initial_live)\<lparr>pendingStarts := 0, streamRef := Some [0],
            inputContext := True, outputContext := True\<rparr>))
        \<lparr>live_error := Some ''Connection failed''\<rparr>) = None
   \<and> startSession_resume (Some [0]) None (startSession_begin initial_live)
     = stopSession_begin ((log_calls [ConsoleError]
        ((startSession_begin initial_live)\<lparr>pendingStarts := 0, streamRef := Some [0],
            inputContext := True, outputContext := True\<rparr>))
        \<lparr>live_error := Some ''Connection failed''\<rparr>)
   \<and> calls (startSession_resume (Some [0]) None (startSession_begin initial_live))
     = [ConsoleError, TrackStop 0, CloseInputContext, CloseOutputContext,
        OnInterimTranscript '''']
   \<and> sessionPromiseRef (live_run [StartBegin, StartResume (Some [0]) (Some Fulfills), Open,
         Message 0 \<lparr>inputTranscription = None, outputTranscription = None,
                    turnComplete = False, audioData = Some ''AAA=''\<rparr>] initial_live)
     = Some Fulfills
   \<and> pendingStops (stopSession_begin (live_run [StartBegin,
         StartResume (Some [0]) (Some Fulfills), Open,
         Message 0 \<lparr>inputTranscription = None, outputTranscription = None,
                    turnComplete = False, audioData = Some ''AAA=''\<rparr>] initial_live))
     = [Fulfills]
   \<and> (\<exists>st'. stopSession_resume Fulfills (live_run [StartBegin,
         StartResume (Some [0]) (Some Fulfills), Open,
         Message 0 \<lparr>inputTranscription = None, outputTranscription = None,
                    turnComplete = False, audioData = Some ''AAA=''\<rparr>] initial_live) = Some st'
        \<and> calls st' = [OnAiSpeakingStatusChange True, SourceStart 0 0 (1 / 24000), SessionClose,
             TrackStop 0, DisconnectSource, DisconnectProcessor, CloseInputContext,
             CloseOutputContext, SourceStop 0, OnInterimTranscript '''']
        \<and> sessionPromiseRef st' = None \<and> streamRef st' = None
        \<and> \<not> isLive st' \<and> nextStartTimeRef st' = 0 \<and> audioSourcesRef st' = [])"
  using stopSession_releases [where
      ?st0.0 = "(log_calls [ConsoleError]
        ((startSession_begin initial_live)\<lparr>pendingStarts := 0, streamRef := Some [0],
            inputContext := True, outputContext := True\<rparr>))
        \<lparr>live_error := Some ''Connection failed''\<rparr>"
      and ?st1.0 = "live_run [StartBegin, StartResume (Some [0]) (Some Fulfills), Open,
         Message 0 \<lparr>inputTranscription = None, outputTranscription = None,
                    turnComplete = False, audioData = Some ''AAA=''\<rparr>] initial_live"
      and q = Fulfills and p = Fulfills
      and st = "live_run [StartBegin, StartResume (Some [0]) (Some Fulfills), Open,
         Message 0 \<lparr>inputTranscription = None, outputTranscription = None,
                    turnComplete = False, audioData = Some ''AAA=''\<rparr>] initial_live"]
  unfolding opened_state
  by (simp add: startSession_resume_def startSession_begin_def startSession_catch_def
      stopSession_begin_def stopSession_cleanup_def log_calls_def initial_live_def Let_def)

text \<open>
  Claim C7 as stated fails while the connection promise is pending: the cleanup stands
  after the await. For a promise that never settles, a \<^verbatim>\<open>stopSession\<close> called after
  the microphone was acquired does not complete, makes no call, and the stream ref still
  holds the track.
\<close>

theorem stopSession_waits_for_connection:
  "stopSession (startSession_resume (Some [0]) (Some NeverSettles)
      (startSession_begin initial_live)) = None
   \<and> streamRef (startSession_resume (Some [0]) (Some NeverSettles)
      (startSession_begin initial_live)) = Some [0]
   \<and> streamRef (live_run [StartBegin, StartResume (Some [0]) (Some NeverSettles), Stop,
        StopResume 0] initial_live) = Some [0]
   \<and> calls (live_run [StartBegin, StartResume (Some [0]) (Some NeverSettles), Stop,
        StopResume 0] initial_live) = []"
  by (simp add: live_simps stopSession_def)

text \<open>
  The cleanup releases what the refs hold when it runs. A second \<^verbatim>\<open>startSession\<close>
  before the connection opens overwrites the stream ref, and the stop that follows
  stops the second stream's track only.
\<close>

theorem stop_leaves_overwritten_stream:
  "calls (live_run [StartBegin, StartResume (Some [0]) (Some Fulfills),
                    StartBegin, StartResume (Some [1]) (Some Fulfills),
                    Open, Stop, StopResume 0] initial_live)
   = [SessionClose, TrackStop 1, DisconnectSource, DisconnectProcessor, CloseInputContext,
      CloseOutputContext, OnInterimTranscript '''']"
  by (simp add: live_simps)

text \<open>
  A message handler that was waiting for its buffer when the cleanup ran goes on
  afterwards, adds its source to the set and sets the watermark.
\<close>

theorem chunk_resumes_after_stop:
  "audioSourcesRef (live_run [StartBegin, StartResume (Some [0]) (Some Fulfills), Open,
       MessageBegin 0 \<lparr>inputTranscription = None, outputTranscription = None,
                       turnComplete = False, audioData = Some ''AAA=''\<rparr>,
       Stop, StopResume 0, MessageResume 0] initial_live) = [0]
   \<and> nextStartTimeRef (live_run [StartBegin, StartResume (Some [0]) (Some Fulfills), Open,
       MessageBegin 0 \<lparr>inputTranscription = None, outputTranscription = None,
                       turnComplete = False, audioData = Some ''AAA=''\<rparr>,
       Stop, StopResume 0, MessageResume 0] initial_live) = 1 / 24000"
  by (simp add: live_simps)

section \<open>Properties of the recognizer wrapper\<close>











section \<open>Properties of the component\<close>

lemma sessions_finally: "sessions (handleGenerate_finally st) = sessions st"
  by (simp add: handleGenerate_finally_def)

lemma updateSession_sessions:
  "sessions (updateSession f st) =
     (case activeSessionIdRef st of
        None \<Rightarrow> sessions st
      | Some i \<Rightarrow> if i = [] then sessions st
                  else map (\<lambda>s. if id' s = i then f s else s) (sessions st))"
  by (simp add: updateSession_def split: option.splits)

lemma sessions_settle_success:
  "sessions (fst (handleGenerate_settle p (Some resultUrl) st))
     = sessions (updateSession (append_version resultUrl p) st)"
  by (simp add: handleGenerate_settle_def Let_def sessions_finally)

lemma sessions_settle_failure:
  "sessions (fst (handleGenerate_settle p None st)) = sessions st"
  by (simp add: handleGenerate_settle_def sessions_finally)

lemma toString_7: "toString 7 = ''7''"
  by code_simp

lemmas run_simps = app_run_def app_step_def sync_refs_def handleImageUpload_settle_def
  handleImageUpload_begin_def newSession_def initial_app_def handleGenerate_begin_def
  find_session_def onNew_def handleGenerate_settle_def updateSession_def
  handleGenerate_finally_def append_version_def activeSession_def Let_def toString_7



subsection \<open>Edits\<close>




text \<open>
  Claim C4, as the code has it. When \<^verbatim>\<open>editImage\<close> throws, the handler returns
  \<^verbatim>\<open>{ error: "Failed" }\<close>; the session list, the active identifier and both refs are
  unchanged (so no version is appended, no \<^verbatim>\<open>currentIndex\<close> moves, no transcript
  changes); the success animation is untouched and loading ends. The failure shows as
  the error banner, which the timeout scheduled with it (3000 ms) clears, as one
  \<^verbatim>\<open>console.error\<close> call, and as the error sound.
\<close>

theorem failed_edit_effects:
  "snd (handleGenerate_settle p None st) = GenError ''Failed''
   \<and> sessions (fst (handleGenerate_settle p None st)) = sessions st
   \<and> activeSessionId (fst (handleGenerate_settle p None st)) = activeSessionId st
   \<and> sessionsRef (fst (handleGenerate_settle p None st)) = sessionsRef st
   \<and> activeSessionIdRef (fst (handleGenerate_settle p None st)) = activeSessionIdRef st
   \<and> sessions (app_step (GenerateSettle p None) st) = sessions st
   \<and> isSuccessAnim (fst (handleGenerate_settle p None st)) = isSuccessAnim st
   \<and> isLoading (fst (handleGenerate_settle p None st)) = False
   \<and> error (fst (handleGenerate_settle p None st)) = Some ''Generation failed. Please try again.''
   \<and> timeouts (fst (handleGenerate_settle p None st)) = timeouts st @ [(3000, SetErrorNull)]
   \<and> error (fire_timeout (length (timeouts st)) (fst (handleGenerate_settle p None st))) = None
   \<and> consoleErrors (fst (handleGenerate_settle p None st)) = Suc (consoleErrors st)
   \<and> sounds (fst (handleGenerate_settle p None st)) = sounds st @ [SoundError]"
  by (simp add: handleGenerate_settle_def handleGenerate_finally_def fire_timeout_def
      app_step_def sync_refs_def)

text \<open>
  Claim C4 as stated fails in its "only": a failed edit is also surfaced as a sound.
  After an upload and the start of an edit, the failure plays the error sound after the
  two sounds of the start.
\<close>

theorem failed_edit_plays_sound:
  "sounds (fst (handleGenerate_settle ''add a hat'' None
      (app_run [UploadSettle 7 (Some ''data:a''), GenerateBegin ''add a hat''] initial_app)))
   = [SoundStart, SoundScribble, SoundError]"
  by (simp add: run_simps)

subsection \<open>Uploads\<close>

lemma find_snoc_fresh: "\<forall>x \<in> set xs. \<not> P x \<Longrightarrow> P y \<Longrightarrow> find P (xs @ [y]) = Some y"
  by (induction xs) auto

lemma id_newSession: "id' (newSession now base64) = toString now"
  by (simp add: newSession_def)

lemma char_of_digits:
  "char_of (48::nat) = CHR ''0''" "char_of (49::nat) = CHR ''1''" "char_of (55::nat) = CHR ''7''"
  by code_simp+

lemma toString_1700000000000: "toString 1700000000000 = ''1700000000000''"
  by (simp add: toString.simps char_of_digits)

lemma toString_1700000000001: "toString 1700000000001 = ''1700000000001''"
  by (simp add: toString.simps char_of_digits)

text \<open>
  What an upload does. After a file was read, \<^verbatim>\<open>handleImageUpload\<close> appends exactly
  one session to the list: its identifier is the decimal text of \<^verbatim>\<open>Date.now()\<close>, it has
  the single version (the file's data URI, the prompt \<^verbatim>\<open>Original\<close>, kind image), an
  empty transcript and \<^verbatim>\<open>currentIndex\<close> 0; and \<^verbatim>\<open>activeSessionId\<close> becomes its
  identifier. The component displays the first session of the list that has the active
  identifier, which is the new one when no earlier session has the same identifier.
\<close>

theorem upload_creates_session:
  "sessions (handleImageUpload_settle now (Some base64) st) = sessions st @ [newSession now base64]
   \<and> newSession now base64
       = \<lparr>id' = toString now,
          versions = [\<lparr>src = base64, prompt = ''Original'', type = ImageType\<rparr>],
          transcript = [], currentIndex = 0\<rparr>
   \<and> activeSessionId (handleImageUpload_settle now (Some base64) st)
       = Some (id' (newSession now base64))
   \<and> (toString now \<notin> set (map id' (sessions st)) \<longrightarrow>
       activeSession (handleImageUpload_settle now (Some base64) st)
         = Some (newSession now base64))"
proof -
  have a: "sessions (handleImageUpload_settle now (Some base64) st)
             = sessions st @ [newSession now base64]"
    by (simp add: handleImageUpload_settle_def)
  have b: "activeSessionId (handleImageUpload_settle now (Some base64) st)
             = Some (id' (newSession now base64))"
    by (simp add: handleImageUpload_settle_def)
  have c: "activeSession (handleImageUpload_settle now (Some base64) st)
             = Some (newSession now base64)"
    if fresh: "toString now \<notin> set (map id' (sessions st))"
  proof -
    have "find (\<lambda>s. id' s = toString now) (sessions st @ [newSession now base64])
            = Some (newSession now base64)"
    proof (rule find_snoc_fresh)
      show "\<forall>x \<in> set (sessions st). \<not> id' x = toString now" using fresh by (auto simp: image_iff)
      show "id' (newSession now base64) = toString now" by (rule id_newSession)
    qed
    then show ?thesis
      unfolding activeSession_def a b id_newSession by (simp add: find_session_def)
  qed
  have d: "newSession now base64
       = \<lparr>id' = toString now,
          versions = [\<lparr>src = base64, prompt = ''Original'', type = ImageType\<rparr>],
          transcript = [], currentIndex = 0\<rparr>"
    by (simp add: newSession_def)
  show ?thesis
  proof (intro conjI impI)
    show "toString now \<notin> set (map id' (sessions st)) \<Longrightarrow>
       activeSession (handleImageUpload_settle now (Some base64) st)
         = Some (newSession now base64)" by (rule c)
  qed (rule a, rule d, rule b)
qed

text \<open>
  The theorem at the second upload of a run, one millisecond after the first.
\<close>

theorem upload_creates_session_witness:
  "toString 1700000000001
     \<notin> set (map id' (sessions (app_run [UploadBegin,
          UploadSettle 1700000000000 (Some ''data:a'')] initial_app)))
   \<and> activeSession (handleImageUpload_settle 1700000000001 (Some ''data:b'')
        (app_run [UploadBegin, UploadSettle 1700000000000 (Some ''data:a'')] initial_app))
     = Some \<lparr>id' = ''1700000000001'',
          versions = [\<lparr>src = ''data:b'', prompt = ''Original'', type = ImageType\<rparr>],
          transcript = [], currentIndex = 0\<rparr>"
  using upload_creates_session [of 1700000000001 "''data:b''"
      "app_run [UploadBegin, UploadSettle 1700000000000 (Some ''data:a'')] initial_app"]
  by (simp add: run_simps toString_1700000000000 toString_1700000000001)

text \<open>
  Claim C6 fails on the code when \<^verbatim>\<open>Date.now()\<close> returns the same millisecond for two
  uploads. Two files are chosen one after the other and both reads complete at
  1700000000000: both sessions get the identifier \<^verbatim>\<open>1700000000000\<close>, the list holds
  the two sessions, and the session on display after the second upload is the first
  one, with the first file's data URI, not the new one.
\<close>

theorem upload_same_timestamp_displays_old:
  "sessions (app_run [UploadBegin, UploadBegin,
       UploadSettle 1700000000000 (Some ''data:a''),
       UploadSettle 1700000000000 (Some ''data:b'')] initial_app)
     = [\<lparr>id' = ''1700000000000'',
          versions = [\<lparr>src = ''data:a'', prompt = ''Original'', type = ImageType\<rparr>],
          transcript = [], currentIndex = 0\<rparr>,
        \<lparr>id' = ''1700000000000'',
          versions = [\<lparr>src = ''data:b'', prompt = ''Original'', type = ImageType\<rparr>],
          transcript = [], currentIndex = 0\<rparr>]
   \<and> activeSession (app_run [UploadBegin, UploadBegin,
       UploadSettle 1700000000000 (Some ''data:a''),
       UploadSettle 1700000000000 (Some ''data:b'')] initial_app)
     = Some \<lparr>id' = ''1700000000000'',
          versions = [\<lparr>src = ''data:a'', prompt = ''Original'', type = ImageType\<rparr>],
          transcript = [], currentIndex = 0\<rparr>"
  by (simp add: run_simps toString_1700000000000)

subsection \<open>Sessions are never removed\<close>

lemma ids_updateSession:
  assumes "\<And>s. id' (f s) = id' s"
  shows "map id' (sessions (updateSession f st)) = map id' (sessions st)"
  by (simp add: updateSession_sessions assms o_def split: option.splits cong: map_cong)

lemma ids_handleTurnComplete:
  "map id' (sessions (handleTurnComplete user ai st)) = map id' (sessions st)"
  by (simp add: handleTurnComplete_def o_def split: option.splits cong: map_cong)

lemma sessions_sync_refs: "sessions (sync_refs prev st) = sessions st"
  by (simp add: sync_refs_def)

lemma sessions_run_timeout: "sessions (run_timeout a st) = sessions st"
  by (cases a) simp_all

lemma app_handler_ids:
  "map id' (sessions (app_handler ev st)) = map id' (sessions st)
   \<or> (\<exists>s. sessions (app_handler ev st) = sessions st @ [s])"
proof (cases ev)
  case (UploadSettle now outcome)
  then show ?thesis by (cases outcome) (simp_all add: handleImageUpload_settle_def)
next
  case (GenerateBegin p)
  then show ?thesis
    by (auto simp: handleGenerate_begin_def sessions_settle_failure
        split: option.splits prod.splits edit_request.splits if_splits)
next
  case (GenerateSettle p outcome)
  then show ?thesis
    by (cases outcome)
      (simp_all add: sessions_settle_failure sessions_settle_success ids_updateSession
        append_version_def)
qed (simp_all add: handleImageUpload_begin_def ids_handleTurnComplete onSelect_def onNew_def
      selectVersion_def ids_updateSession fire_timeout_def sessions_run_timeout)

lemma app_step_ids:
  "map id' (sessions (app_step ev st)) = map id' (sessions st)
   \<or> (\<exists>s. sessions (app_step ev st) = sessions st @ [s])"
  using app_handler_ids [of ev st] by (simp add: app_step_def sessions_sync_refs)

lemma app_step_prefix: "prefix (map id' (sessions st)) (map id' (sessions (app_step ev st)))"
  using app_step_ids [of ev st] by auto

lemma app_run_prefix: "prefix (map id' (sessions st)) (map id' (sessions (app_run evs st)))"
proof (induction evs arbitrary: st)
  case Nil
  then show ?case by (simp add: app_run_def)
next
  case (Cons ev evs)
  have "prefix (map id' (sessions (app_step ev st)))
          (map id' (sessions (app_run evs (app_step ev st))))"
    by (rule Cons.IH)
  then show ?case
    using app_step_prefix [of st ev] by (auto simp: app_run_def intro: prefix_order.trans)
qed

lemma map_update_distinct:
  assumes "distinct (map id' xs)"
  shows "\<exists>k s. map (\<lambda>s. if id' s = i then f s else s) xs = xs[k := s]"
  using assms
proof (induction xs)
  case Nil
  then show ?case by simp
next
  case (Cons x xs)
  show ?case
  proof (cases "id' x = i")
    case True
    then have "\<forall>y \<in> set xs. id' y \<noteq> i" using Cons.prems by (auto simp: image_iff)
    then have "map (\<lambda>s. if id' s = i then f s else s) xs = xs" by (simp add: map_idI)
    then have "map (\<lambda>s. if id' s = i then f s else s) (x # xs) = (x # xs)[0 := f x]"
      using True by simp
    then show ?thesis by blast
  next
    case False
    obtain k s where "map (\<lambda>s. if id' s = i then f s else s) xs = xs[k := s]"
      using Cons.IH Cons.prems by auto
    then have "map (\<lambda>s. if id' s = i then f s else s) (x # xs) = (x # xs)[Suc k := s]"
      using False by simp
    then show ?thesis by blast
  qed
qed

lemma unchanged_is_update: "\<exists>k s. xs = xs[k := s]"
proof -
  have "xs[length xs := undefined] = xs" by (rule list_update_beyond) simp
  then have "xs = xs[length xs := undefined]" by (rule sym)
  then show ?thesis by blast
qed

lemma updateSession_one:
  "distinct (map id' (sessions st)) \<Longrightarrow>
     \<exists>k s. sessions (updateSession f st) = (sessions st)[k := s]"
  by (auto simp: updateSession_sessions map_update_distinct unchanged_is_update
      split: option.splits)

lemma handleTurnComplete_one:
  "distinct (map id' (sessions st)) \<Longrightarrow>
     \<exists>k s. sessions (handleTurnComplete user ai st) = (sessions st)[k := s]"
  by (auto simp: handleTurnComplete_def map_update_distinct unchanged_is_update
      split: option.splits)

lemma app_handler_one:
  assumes "distinct (map id' (sessions st))"
  shows "(\<exists>s. sessions (app_handler ev st) = sessions st @ [s])
    \<or> (\<exists>k s. sessions (app_handler ev st) = (sessions st)[k := s])"
proof (cases ev)
  case (UploadSettle now outcome)
  then show ?thesis
    by (cases outcome) (simp_all add: handleImageUpload_settle_def unchanged_is_update)
next
  case (GenerateBegin p)
  then show ?thesis
    by (auto simp: handleGenerate_begin_def sessions_settle_failure unchanged_is_update
        split: option.splits prod.splits edit_request.splits if_splits)
next
  case (GenerateSettle p outcome)
  then show ?thesis
    using assms
    by (cases outcome)
      (simp_all add: sessions_settle_failure sessions_settle_success updateSession_one
        unchanged_is_update)
next
  case (TurnComplete user ai)
  then show ?thesis using assms by (simp add: handleTurnComplete_one)
next
  case (SelectVersion i)
  then show ?thesis using assms by (simp add: selectVersion_def updateSession_one)
qed (simp_all add: handleImageUpload_begin_def onSelect_def onNew_def fire_timeout_def
      sessions_run_timeout unchanged_is_update)

lemma toString_9: "toString 9 = ''9''"
  by code_simp

text \<open>
  Claim C8. Over every sequence of events (uploads, edits, transcript turns, session
  switches, version picks, timeouts) from every state, the list of session identifiers
  of the start is a prefix of the list at the end: no session is removed or reordered,
  and the list never gets shorter. Each single step either keeps every identifier in
  its place (fields of sessions are replaced in place) or appends one session; and
  while the identifiers are distinct, a step that does not append changes at most one
  session of the list.
\<close>

theorem sessions_never_removed:
  "prefix (map id' (sessions st)) (map id' (sessions (app_run evs st)))
   \<and> length (sessions st) \<le> length (sessions (app_run evs st))
   \<and> (map id' (sessions (app_step ev st)) = map id' (sessions st)
      \<or> (\<exists>s. sessions (app_step ev st) = sessions st @ [s]))
   \<and> (distinct (map id' (sessions st)) \<longrightarrow>
        (\<exists>s. sessions (app_step ev st) = sessions st @ [s])
        \<or> (\<exists>k s. sessions (app_step ev st) = (sessions st)[k := s]))"
proof -
  have "length (map id' (sessions st)) \<le> length (map id' (sessions (app_run evs st)))"
    using app_run_prefix [of st evs] by (rule prefix_length_le)
  moreover have "distinct (map id' (sessions st)) \<longrightarrow>
        (\<exists>s. sessions (app_step ev st) = sessions st @ [s])
        \<or> (\<exists>k s. sessions (app_step ev st) = (sessions st)[k := s])"
    using app_handler_one [of st ev] by (simp add: app_step_def sessions_sync_refs)
  ultimately show ?thesis using app_run_prefix [of st evs] app_step_ids [of ev st] by simp
qed

text \<open>
  The theorem at a run with two uploads, an edit, a version pick and a transcript turn.
\<close>

theorem sessions_never_removed_witness:
  "map id' (sessions (app_run [GenerateSettle ''add a hat'' (Some ''data:b''), New,
       UploadSettle 9 (Some ''data:c''), SelectVersion 1, TurnComplete ''hi'' ''hello'']
       (app_run [UploadSettle 7 (Some ''data:a'')] initial_app)))
   = [''7'', ''9'']
   \<and> distinct (map id' (sessions (app_run [UploadSettle 7 (Some ''data:a'')] initial_app)))"
  using sessions_never_removed
    [of "app_run [UploadSettle 7 (Some ''data:a'')] initial_app"
        "[GenerateSettle ''add a hat'' (Some ''data:b''), New,
          UploadSettle 9 (Some ''data:c''), SelectVersion 1, TurnComplete ''hi'' ''hello'']"
        New]
  by (simp add: run_simps toString_9 handleTurnComplete_def selectVersion_def)

end
